theory Spec2Isabelle
  imports Main "HOL-Library.Word"
begin

section \<open>Machine types and the record type\<close>

text \<open>
  The benchmark is built for 64-bit targets (GCC, Clang and MSVC are named in its
  comments): \<open>size_t\<close> is an unsigned 64-bit integer and \<open>int\<close> a 32-bit
  two's complement integer. Both are words; \<open>unat\<close> reads a \<open>size_t\<close>, \<open>sint\<close>
  reads an \<open>int\<close>.
\<close>

type_synonym size_t = "64 word"
type_synonym c_int = "32 word"

text \<open>
  \<^verbatim>\<open>struct MyStruct { int x, y; MyStruct(int a, int b) : x(a), y(b) {} };\<close>
\<close>

record MyStruct =
  x :: c_int
  y :: c_int

definition MyStruct :: "c_int \<Rightarrow> c_int \<Rightarrow> MyStruct" where
  "MyStruct a b = \<lparr>x = a, y = b\<rparr>"

definition sizeof_MyStruct :: size_t where
  "sizeof_MyStruct = 8"

text \<open>
  The integral conversion from \<open>size_t\<close> to \<open>int\<close>: the value modulo \<open>2 ^ 32\<close>.
  \<^verbatim>\<open>static_cast<int>(i)\<close> writes it out in \<open>BM_CBaseline3\<close>; every other variant
  passes the \<open>size_t\<close> index where the constructor takes an \<open>int\<close>, which is the same
  conversion made implicitly.
\<close>

definition static_cast_int :: "size_t \<Rightarrow> c_int" where
  "static_cast_int i = ucast i"

section \<open>The free store and the event log\<close>

text \<open>
  A block of the free store is an array of slots for \<open>MyStruct\<close> objects; a slot is
  \<open>None\<close> until an object is written into it. A block is named by the position of its
  allocation in \<open>blocks\<close>: the name is never reused, so two allocations are two
  instances even when an allocator would hand out the same address again. The store
  grants every request (the specification leaves allocation failure out); the
  raw-buffer variants are also given on a store that may refuse.

  The trace lists, in program order, what one run does to storage: allocation and
  release of a block, an object constructed in place in a slot from constructor
  arguments, a complete object materialised outside any block (a temporary or a named
  local), assignment of such an object to a slot, a slot copy- or move-constructed from
  such an object, the relocation of a vector's elements into new storage, and the opaque
  use by \<open>benchmark::DoNotOptimize\<close> with what the handle it is given denotes at that
  moment (\<open>None\<close> when the storage is no longer live or not fully initialised).
\<close>

datatype error = LengthError | OutOfBounds | InvalidFree | NoSuchArg | BadAlloc

datatype block = Live "MyStruct option list" | Freed

datatype event =
    Alloc nat nat
  | Dealloc nat
  | Construct nat nat MyStruct
  | Materialize MyStruct
  | Assign nat nat MyStruct
  | CopyConstruct nat nat MyStruct
  | Relocate nat nat nat
  | Observe "MyStruct list option"

record mem =
  blocks :: "block list"
  trace :: "event list"

definition emit :: "event \<Rightarrow> mem \<Rightarrow> mem" where
  "emit e s = s\<lparr>trace := trace s @ [e]\<rparr>"

definition and_then :: "error + 'a \<Rightarrow> ('a \<Rightarrow> error + 'b) \<Rightarrow> error + 'b" where
  "and_then m f = (case m of Inl e \<Rightarrow> Inl e | Inr a \<Rightarrow> f a)"

text \<open>
  \<^verbatim>\<open>new std::byte[n]\<close>, the result cast to \<^verbatim>\<open>MyStruct*\<close>: a fresh block of \<open>n\<close>
  bytes, which has room for \<open>n div sizeof(MyStruct)\<close> objects.
\<close>

definition new_bytes :: "size_t \<Rightarrow> mem \<Rightarrow> nat \<times> mem" where
  "new_bytes n s =
     (length (blocks s),
      emit (Alloc (length (blocks s)) (unat n))
        (s\<lparr>blocks := blocks s @ [Live (replicate (unat n div unat sizeof_MyStruct) None)]\<rparr>))"

text \<open>
  A block goes back to the free store; nothing is destroyed slot by slot. Releasing
  what is not a live block is undefined behaviour; the model stops with \<open>InvalidFree\<close>.
\<close>

definition release :: "nat \<Rightarrow> mem \<Rightarrow> error + mem" where
  "release p s =
     (if p < length (blocks s) \<and> blocks s ! p \<noteq> Freed
      then Inr (emit (Dealloc p) (s\<lparr>blocks := (blocks s)[p := Freed]\<rparr>))
      else Inl InvalidFree)"

text \<open>\<^verbatim>\<open>delete[] p\<close>\<close>

definition delete_array :: "nat \<Rightarrow> mem \<Rightarrow> error + mem" where
  "delete_array p s = release p s"

text \<open>
  Writing slot \<open>i\<close> of block \<open>p\<close>. A write outside a live block is undefined behaviour
  in C++; the model stops with \<open>OutOfBounds\<close>.
\<close>

definition store :: "nat \<Rightarrow> nat \<Rightarrow> MyStruct \<Rightarrow> mem \<Rightarrow> error + mem" where
  "store p i v s =
     (if p < length (blocks s) then
        (case blocks s ! p of
           Live slots \<Rightarrow>
             if i < length slots
             then Inr (s\<lparr>blocks := (blocks s)[p := Live (slots[i := Some v])]\<rparr>)
             else Inl OutOfBounds
         | Freed \<Rightarrow> Inl OutOfBounds)
      else Inl OutOfBounds)"

text \<open>\<^verbatim>\<open>::new (static_cast<void*>(p + i)) MyStruct(a, b)\<close>\<close>

definition placement_new :: "nat \<Rightarrow> nat \<Rightarrow> c_int \<Rightarrow> c_int \<Rightarrow> mem \<Rightarrow> error + mem" where
  "placement_new p i a b s =
     and_then (store p i (MyStruct a b) s) (\<lambda>s'. Inr (emit (Construct p i (MyStruct a b)) s'))"

text \<open>
  \<^verbatim>\<open>std::construct_at(p + i, a, b)\<close>: the header \<open><memory>\<close> defines it as the
  placement new expression on its forwarded arguments.
\<close>

definition construct_at :: "nat \<Rightarrow> nat \<Rightarrow> c_int \<Rightarrow> c_int \<Rightarrow> mem \<Rightarrow> error + mem" where
  "construct_at p i a b s = placement_new p i a b s"

text \<open>A complete object comes to exist outside any block.\<close>

definition materialize :: "MyStruct \<Rightarrow> mem \<Rightarrow> mem" where
  "materialize v s = emit (Materialize v) s"

text \<open>\<^verbatim>\<open>p[i] = v\<close>: copy assignment of an existing object to slot \<open>i\<close>.\<close>

definition assign :: "nat \<Rightarrow> nat \<Rightarrow> MyStruct \<Rightarrow> mem \<Rightarrow> error + mem" where
  "assign p i v s = and_then (store p i v s) (\<lambda>s'. Inr (emit (Assign p i v) s'))"

text \<open>Slot \<open>i\<close> copy- or move-constructed from an existing object.\<close>

definition copy_construct :: "nat \<Rightarrow> nat \<Rightarrow> MyStruct \<Rightarrow> mem \<Rightarrow> error + mem" where
  "copy_construct p i v s = and_then (store p i v s) (\<lambda>s'. Inr (emit (CopyConstruct p i v) s'))"

text \<open>The first \<open>n\<close> objects of block \<open>p\<close>, when the block is live and they all exist.\<close>

definition read_array :: "nat \<Rightarrow> nat \<Rightarrow> mem \<Rightarrow> MyStruct list option" where
  "read_array p n s =
     (if p < length (blocks s) then
        (case blocks s ! p of
           Live slots \<Rightarrow> if n \<le> length slots then those (take n slots) else None
         | Freed \<Rightarrow> None)
      else None)"

text \<open>All objects of block \<open>p\<close>: what a pointer to the block's first slot denotes.\<close>

definition read_block :: "nat \<Rightarrow> mem \<Rightarrow> MyStruct list option" where
  "read_block p s =
     (if p < length (blocks s) then
        (case blocks s ! p of Live slots \<Rightarrow> those slots | Freed \<Rightarrow> None)
      else None)"

text \<open>\<^verbatim>\<open>benchmark::DoNotOptimize(vec)\<close> on a raw pointer.\<close>

definition DoNotOptimize_ptr :: "nat \<Rightarrow> mem \<Rightarrow> mem" where
  "DoNotOptimize_ptr p s = emit (Observe (read_block p s)) s"

section \<open>Loops\<close>

text \<open>
  \<^verbatim>\<open>for (size_t i = i0; i < N; ++i) body\<close>, the counter a 64-bit word. An error in
  the body ends the loop.
\<close>

function for_loop :: "size_t \<Rightarrow> size_t \<Rightarrow> (size_t \<Rightarrow> 'a \<Rightarrow> error + 'a) \<Rightarrow> 'a \<Rightarrow> error + 'a" where
  "for_loop i N body s =
     (if i < N
      then (case body i s of Inl e \<Rightarrow> Inl e | Inr s' \<Rightarrow> for_loop (i + 1) N body s')
      else Inr s)"
  by pat_completeness auto
termination
proof (relation "measure (\<lambda>(i, N, body, s). unat N - unat i)")
  show "wf (measure (\<lambda>(i :: size_t, N :: size_t, body :: size_t \<Rightarrow> 'a \<Rightarrow> error + 'a, s :: 'a). unat N - unat i))"
    by simp
next
  fix i N :: size_t and body :: "size_t \<Rightarrow> 'a \<Rightarrow> error + 'a" and s s' :: 'a
  assume "i < N"
  then have lt: "unat i < unat N"
    by (simp add: word_less_nat_alt)
  moreover have "unat N < 2 ^ 64"
    using unsigned_less [of N] by simp
  ultimately have "unat i + 1 < 2 ^ 64"
    by simp
  then have "unat (i + 1) = Suc (unat i)"
    by (simp add: unat_word_ariths)
  with lt show "((i + 1, N, body, s'), (i, N, body, s))
      \<in> measure (\<lambda>(i, N, body, s). unat N - unat i)"
    by simp
qed

text \<open>
  The traversal of an iterator pair, \<^verbatim>\<open>for (; it != stop; ++it) body\<close>, for the
  iterators of an \<open>iota\<close> view: an iterator is the \<open>size_t\<close> value it stands at.
\<close>

function iter_loop :: "size_t \<Rightarrow> size_t \<Rightarrow> (size_t \<Rightarrow> 'a \<Rightarrow> error + 'a) \<Rightarrow> 'a \<Rightarrow> error + 'a" where
  "iter_loop it stop body s =
     (if it \<noteq> stop
      then (case body it s of Inl e \<Rightarrow> Inl e | Inr s' \<Rightarrow> iter_loop (it + 1) stop body s')
      else Inr s)"
  by pat_completeness auto
termination
proof (relation "measure (\<lambda>(it, stop, body, s). unat (stop - it))")
  show "wf (measure (\<lambda>(it :: size_t, stop :: size_t, body :: size_t \<Rightarrow> 'a \<Rightarrow> error + 'a, s :: 'a). unat (stop - it)))"
    by simp
next
  fix it stop :: size_t and body :: "size_t \<Rightarrow> 'a \<Rightarrow> error + 'a" and s s' :: 'a
  assume "it \<noteq> stop"
  then have "stop - it \<noteq> 0"
    by simp
  then have "unat (stop - it - 1) < unat (stop - it)"
    by (rule measure_unat)
  moreover have "stop - (it + 1) = stop - it - 1"
    by simp
  ultimately have "unat (stop - (it + 1)) < unat (stop - it)"
    by (simp only:)
  then show "((it + 1, stop, body, s'), (it, stop, body, s))
      \<in> measure (\<lambda>(it, stop, body, s). unat (stop - it))"
    by simp
qed

text \<open>\<^verbatim>\<open>for (auto _ : state) body\<close>: the body runs as often as the framework decided.\<close>

fun repeat :: "nat \<Rightarrow> ('a \<Rightarrow> error + 'a) \<Rightarrow> 'a \<Rightarrow> error + 'a" where
  "repeat 0 body s = Inr s"
| "repeat (Suc k) body s = (case body s of Inl e \<Rightarrow> Inl e | Inr s' \<Rightarrow> repeat k body s')"

section \<open>The raw-buffer variants\<close>

text \<open>
  Each variant is given in two parts: \<open>_build\<close> is the construction work of one
  iteration of the timed loop, up to the point where the collection is complete, and
  \<open>_body\<close> is the whole loop body, which goes on from there.

  \<open>BM_CBaseline\<close>, lines 21 to 27:
  \<^verbatim>\<open>
  MyStruct* vec = (MyStruct*)new std::byte[ sizeof(MyStruct) * N ];
  for (size_t i = 0; i < N; ++i) {
      ::new (static_cast<void*>(vec+i)) MyStruct(i, i);
  }
  delete[] vec;
  benchmark::DoNotOptimize(vec);
  \<close>
  The byte count is a \<open>size_t\<close> product and wraps modulo \<open>2 ^ 64\<close>.
\<close>

definition BM_CBaseline_build :: "size_t \<Rightarrow> mem \<Rightarrow> error + nat \<times> mem" where
  "BM_CBaseline_build N s =
     (let (vec, s1) = new_bytes (sizeof_MyStruct * N) s in
      and_then
        (for_loop 0 N
           (\<lambda>i. placement_new vec (unat i) (static_cast_int i) (static_cast_int i)) s1)
        (\<lambda>s2. Inr (vec, s2)))"

definition BM_CBaseline_body :: "size_t \<Rightarrow> mem \<Rightarrow> error + mem" where
  "BM_CBaseline_body N s =
     and_then (BM_CBaseline_build N s) (\<lambda>(vec, s2).
     and_then (delete_array vec s2) (\<lambda>s3.
     Inr (DoNotOptimize_ptr vec s3)))"

text \<open>
  \<open>BM_CBaseline2\<close>, lines 103 to 108: the loop body is \<^verbatim>\<open>vec[i] = MyStruct(i,i);\<close>,
  a temporary and its assignment to the slot.
\<close>

definition BM_CBaseline2_build :: "size_t \<Rightarrow> mem \<Rightarrow> error + nat \<times> mem" where
  "BM_CBaseline2_build N s =
     (let (vec, s1) = new_bytes (sizeof_MyStruct * N) s in
      and_then
        (for_loop 0 N
           (\<lambda>i s. let tmp = MyStruct (static_cast_int i) (static_cast_int i)
                  in assign vec (unat i) tmp (materialize tmp s)) s1)
        (\<lambda>s2. Inr (vec, s2)))"

definition BM_CBaseline2_body :: "size_t \<Rightarrow> mem \<Rightarrow> error + mem" where
  "BM_CBaseline2_body N s =
     and_then (BM_CBaseline2_build N s) (\<lambda>(vec, s2).
     and_then (delete_array vec s2) (\<lambda>s3.
     Inr (DoNotOptimize_ptr vec s3)))"

text \<open>
  \<open>BM_CBaseline3\<close>, lines 122 to 126: the loop body is
  \<^verbatim>\<open>std::construct_at(vec + i, static_cast<int>(i), static_cast<int>(i));\<close>
\<close>

definition BM_CBaseline3_build :: "size_t \<Rightarrow> mem \<Rightarrow> error + nat \<times> mem" where
  "BM_CBaseline3_build N s =
     (let (vec, s1) = new_bytes (sizeof_MyStruct * N) s in
      and_then
        (for_loop 0 N
           (\<lambda>i. construct_at vec (unat i) (static_cast_int i) (static_cast_int i)) s1)
        (\<lambda>s2. Inr (vec, s2)))"

definition BM_CBaseline3_body :: "size_t \<Rightarrow> mem \<Rightarrow> error + mem" where
  "BM_CBaseline3_body N s =
     and_then (BM_CBaseline3_build N s) (\<lambda>(vec, s2).
     and_then (delete_array vec s2) (\<lambda>s3.
     Inr (DoNotOptimize_ptr vec s3)))"

section \<open>The raw-buffer variants on a free store that may refuse\<close>

text \<open>
  \<^verbatim>\<open>new std::byte[n]\<close> does not return when the request is not granted: it throws
  \<open>std::bad_array_new_length\<close> when \<open>n\<close> is more than the implementation allows an
  array to have, and \<open>std::bad_alloc\<close>, the base class of that exception, when the
  allocation function finds no such block. No implementation grants more than
  \<open>PTRDIFF_MAX\<close> bytes. In either case no block has been allocated, and since the
  benchmark functions have no handler the exception leaves the loop body at the
  new-expression. Whether the free store grants \<open>n\<close> bytes in a given state is the
  parameter \<open>grants\<close>. The three variants are as above, with this new-expression.
\<close>

definition PTRDIFF_MAX :: nat where
  "PTRDIFF_MAX = 2 ^ 63 - 1"

definition new_bytes_on :: "(mem \<Rightarrow> nat \<Rightarrow> bool) \<Rightarrow> size_t \<Rightarrow> mem \<Rightarrow> error + nat \<times> mem" where
  "new_bytes_on grants n s =
     (if unat n \<le> PTRDIFF_MAX \<and> grants s (unat n) then Inr (new_bytes n s) else Inl BadAlloc)"

definition BM_CBaseline_build_on ::
  "(mem \<Rightarrow> nat \<Rightarrow> bool) \<Rightarrow> size_t \<Rightarrow> mem \<Rightarrow> error + nat \<times> mem" where
  "BM_CBaseline_build_on grants N s =
     and_then (new_bytes_on grants (sizeof_MyStruct * N) s) (\<lambda>(vec, s1).
     and_then
       (for_loop 0 N
          (\<lambda>i. placement_new vec (unat i) (static_cast_int i) (static_cast_int i)) s1)
       (\<lambda>s2. Inr (vec, s2)))"

definition BM_CBaseline_body_on :: "(mem \<Rightarrow> nat \<Rightarrow> bool) \<Rightarrow> size_t \<Rightarrow> mem \<Rightarrow> error + mem" where
  "BM_CBaseline_body_on grants N s =
     and_then (BM_CBaseline_build_on grants N s) (\<lambda>(vec, s2).
     and_then (delete_array vec s2) (\<lambda>s3.
     Inr (DoNotOptimize_ptr vec s3)))"

definition BM_CBaseline2_build_on ::
  "(mem \<Rightarrow> nat \<Rightarrow> bool) \<Rightarrow> size_t \<Rightarrow> mem \<Rightarrow> error + nat \<times> mem" where
  "BM_CBaseline2_build_on grants N s =
     and_then (new_bytes_on grants (sizeof_MyStruct * N) s) (\<lambda>(vec, s1).
     and_then
       (for_loop 0 N
          (\<lambda>i s. let tmp = MyStruct (static_cast_int i) (static_cast_int i)
                 in assign vec (unat i) tmp (materialize tmp s)) s1)
       (\<lambda>s2. Inr (vec, s2)))"

definition BM_CBaseline2_body_on :: "(mem \<Rightarrow> nat \<Rightarrow> bool) \<Rightarrow> size_t \<Rightarrow> mem \<Rightarrow> error + mem" where
  "BM_CBaseline2_body_on grants N s =
     and_then (BM_CBaseline2_build_on grants N s) (\<lambda>(vec, s2).
     and_then (delete_array vec s2) (\<lambda>s3.
     Inr (DoNotOptimize_ptr vec s3)))"

definition BM_CBaseline3_build_on ::
  "(mem \<Rightarrow> nat \<Rightarrow> bool) \<Rightarrow> size_t \<Rightarrow> mem \<Rightarrow> error + nat \<times> mem" where
  "BM_CBaseline3_build_on grants N s =
     and_then (new_bytes_on grants (sizeof_MyStruct * N) s) (\<lambda>(vec, s1).
     and_then
       (for_loop 0 N
          (\<lambda>i. construct_at vec (unat i) (static_cast_int i) (static_cast_int i)) s1)
       (\<lambda>s2. Inr (vec, s2)))"

definition BM_CBaseline3_body_on :: "(mem \<Rightarrow> nat \<Rightarrow> bool) \<Rightarrow> size_t \<Rightarrow> mem \<Rightarrow> error + mem" where
  "BM_CBaseline3_body_on grants N s =
     and_then (BM_CBaseline3_build_on grants N s) (\<lambda>(vec, s2).
     and_then (delete_array vec s2) (\<lambda>s3.
     Inr (DoNotOptimize_ptr vec s3)))"

text \<open>
  The three raw-buffer variants on such a store, each as its construction work and its
  loop body.
\<close>

definition raw_variants_on ::
  "(mem \<Rightarrow> nat \<Rightarrow> bool)
     \<Rightarrow> ((size_t \<Rightarrow> mem \<Rightarrow> error + nat \<times> mem) \<times> (size_t \<Rightarrow> mem \<Rightarrow> error + mem)) list" where
  "raw_variants_on grants =
     [(BM_CBaseline_build_on grants, BM_CBaseline_body_on grants),
      (BM_CBaseline2_build_on grants, BM_CBaseline2_body_on grants),
      (BM_CBaseline3_build_on grants, BM_CBaseline3_body_on grants)]"

section \<open>std::vector\<close>

text \<open>
  A \<open>std::vector<MyStruct>\<close> is a handle: its storage block (none while the
  capacity is 0), its size and its capacity. The elements are the first \<open>vsize\<close> slots
  of the block. The library is not part of the repository; the model follows the
  C++ standard's description, and where that leaves a choice (the largest size, the
  growth of a full vector) the one of libstdc++: \<open>max_size\<close> is \<open>PTRDIFF_MAX\<close>
  divided by the element size, and a full vector doubles.
\<close>

record vector =
  data :: "nat option"
  vsize :: nat
  capacity :: nat

definition vector_default :: vector where
  "vector_default = \<lparr>data = None, vsize = 0, capacity = 0\<rparr>"

definition max_size :: nat where
  "max_size = (2 ^ 63 - 1) div unat sizeof_MyStruct"

text \<open>Storage for \<open>n\<close> elements; no block is requested for \<open>n = 0\<close>.\<close>

definition allocate :: "nat \<Rightarrow> mem \<Rightarrow> nat option \<times> mem" where
  "allocate n s =
     (if n = 0 then (None, s)
      else (let (p, s') = new_bytes (of_nat n * sizeof_MyStruct) s in (Some p, s')))"

definition deallocate :: "nat option \<Rightarrow> mem \<Rightarrow> error + mem" where
  "deallocate d s = (case d of None \<Rightarrow> Inr s | Some p \<Rightarrow> release p s)"

text \<open>The first \<open>n\<close> elements move from the old storage to the new.\<close>

definition relocate :: "nat option \<Rightarrow> nat option \<Rightarrow> nat \<Rightarrow> mem \<Rightarrow> error + mem" where
  "relocate src dst n s =
     (if n = 0 then Inr s
      else (case (src, dst) of
        (Some p, Some q) \<Rightarrow>
          (if p < length (blocks s) \<and> q < length (blocks s) then
             (case (blocks s ! p, blocks s ! q) of
                (Live ps, Live qs) \<Rightarrow>
                  if n \<le> length ps \<and> n \<le> length qs
                  then Inr (emit (Relocate p q n)
                         (s\<lparr>blocks := (blocks s)[q := Live (take n ps @ drop n qs)]\<rparr>))
                  else Inl OutOfBounds
              | _ \<Rightarrow> Inl OutOfBounds)
           else Inl OutOfBounds)
      | _ \<Rightarrow> Inl OutOfBounds))"

definition reallocate :: "nat \<Rightarrow> vector \<Rightarrow> mem \<Rightarrow> error + vector \<times> mem" where
  "reallocate n v s =
     (let (d, s1) = allocate n s in
      and_then (relocate (data v) d (vsize v) s1) (\<lambda>s2.
      and_then (deallocate (data v) s2) (\<lambda>s3.
      Inr (v\<lparr>data := d, capacity := n\<rparr>, s3))))"

text \<open>\<^verbatim>\<open>vec.reserve(n)\<close>\<close>

definition reserve :: "nat \<Rightarrow> vector \<Rightarrow> mem \<Rightarrow> error + vector \<times> mem" where
  "reserve n v s =
     (if max_size < n then Inl LengthError
      else if capacity v < n then reallocate n v s
      else Inr (v, s))"

definition grown_capacity :: "nat \<Rightarrow> nat" where
  "grown_capacity n = min max_size (n + max n 1)"

text \<open>Room for one more element: a full vector moves to larger storage.\<close>

definition make_room :: "vector \<Rightarrow> mem \<Rightarrow> error + vector \<times> mem" where
  "make_room v s =
     (if vsize v \<noteq> capacity v then Inr (v, s)
      else if max_size \<le> vsize v then Inl LengthError
      else reallocate (grown_capacity (vsize v)) v s)"

text \<open>The element after the last is constructed from constructor arguments.\<close>

definition construct_end :: "c_int \<Rightarrow> c_int \<Rightarrow> vector \<Rightarrow> mem \<Rightarrow> error + vector \<times> mem" where
  "construct_end a b v s =
     (case data v of
        None \<Rightarrow> Inl OutOfBounds
      | Some p \<Rightarrow>
          and_then (construct_at p (vsize v) a b s) (\<lambda>s'. Inr (v\<lparr>vsize := Suc (vsize v)\<rparr>, s')))"

text \<open>The element after the last is copy- or move-constructed from an object.\<close>

definition copy_end :: "MyStruct \<Rightarrow> vector \<Rightarrow> mem \<Rightarrow> error + vector \<times> mem" where
  "copy_end obj v s =
     (case data v of
        None \<Rightarrow> Inl OutOfBounds
      | Some p \<Rightarrow>
          and_then (copy_construct p (vsize v) obj s) (\<lambda>s'. Inr (v\<lparr>vsize := Suc (vsize v)\<rparr>, s')))"

text \<open>\<^verbatim>\<open>vec.emplace_back(a, b)\<close> with the arguments of the constructor.\<close>

definition emplace_back :: "c_int \<Rightarrow> c_int \<Rightarrow> vector \<Rightarrow> mem \<Rightarrow> error + vector \<times> mem" where
  "emplace_back a b v s = and_then (make_room v s) (\<lambda>(v', s'). construct_end a b v' s')"

text \<open>\<^verbatim>\<open>vec.push_back(obj)\<close>\<close>

definition push_back :: "MyStruct \<Rightarrow> vector \<Rightarrow> mem \<Rightarrow> error + vector \<times> mem" where
  "push_back obj v s = and_then (make_room v s) (\<lambda>(v', s'). copy_end obj v' s')"

text \<open>The vector's destructor: the storage goes back.\<close>

definition vector_dtor :: "vector \<Rightarrow> mem \<Rightarrow> error + mem" where
  "vector_dtor v s = deallocate (data v) s"

definition read_vector :: "vector \<Rightarrow> mem \<Rightarrow> MyStruct list option" where
  "read_vector v s =
     (case data v of
        None \<Rightarrow> if vsize v = 0 then Some [] else None
      | Some p \<Rightarrow> read_array p (vsize v) s)"

text \<open>\<^verbatim>\<open>benchmark::DoNotOptimize(vec)\<close> on a vector.\<close>

definition DoNotOptimize_vec :: "vector \<Rightarrow> mem \<Rightarrow> mem" where
  "DoNotOptimize_vec v s = emit (Observe (read_vector v s)) s"

subsection \<open>Lazy views\<close>

text \<open>
  \<^verbatim>\<open>std::views::iota(a, b) | std::views::transform(f)\<close> holds the two bounds and the
  function, and no element: an element is computed when an iterator is dereferenced.
\<close>

datatype iota_view = iota size_t size_t

datatype 'a transform_view = transform iota_view "size_t \<Rightarrow> 'a"

fun view_begin :: "'a transform_view \<Rightarrow> size_t" where
  "view_begin (transform (iota a b) f) = a"

fun view_end :: "'a transform_view \<Rightarrow> size_t" where
  "view_end (transform (iota a b) f) = b"

fun view_size :: "'a transform_view \<Rightarrow> nat" where
  "view_size (transform (iota a b) f) = unat (b - a)"

fun view_deref :: "'a transform_view \<Rightarrow> size_t \<Rightarrow> 'a" where
  "view_deref (transform r f) it = f it"

text \<open>
  \<^verbatim>\<open>std::vector<MyStruct> vec(std::from_range, rg)\<close>: the view knows its size, so
  the storage is obtained once and the elements are constructed in order, each from
  the object the dereferenced iterator yields.
\<close>

definition vector_from_range :: "MyStruct transform_view \<Rightarrow> mem \<Rightarrow> error + vector \<times> mem" where
  "vector_from_range rg s =
     (let n = view_size rg in
      if max_size < n then Inl LengthError
      else (let (d, s1) = allocate n s in
        iter_loop (view_begin rg) (view_end rg)
          (\<lambda>it (v, s). let tmp = view_deref rg it in copy_end tmp v (materialize tmp s))
          (\<lparr>data = d, vsize = 0, capacity = n\<rparr>, s1)))"

text \<open>
  \<^verbatim>\<open>std::vector<MyStruct> vec(first, last)\<close>: the iterators of a transform view
  whose function returns an object are input iterators for this constructor, so the
  distance is not known beforehand and the elements are appended one by one.
\<close>

definition vector_from_iterators ::
  "MyStruct transform_view \<Rightarrow> size_t \<Rightarrow> size_t \<Rightarrow> mem \<Rightarrow> error + vector \<times> mem" where
  "vector_from_iterators rg first stop s =
     iter_loop first stop
       (\<lambda>it (v, s). let tmp = view_deref rg it in push_back tmp v (materialize tmp s))
       (vector_default, s)"

section \<open>The vector variants\<close>

text \<open>
  \<open>BM_EmplaceBack\<close>, lines 36 to 42:
  \<^verbatim>\<open>
  std::vector<MyStruct> vec;
  vec.reserve(N);
  for (size_t i = 0; i < N; ++i) {
      vec.emplace_back(i, i);
  }
  benchmark::DoNotOptimize(vec);
  \<close>
  and the vector is destroyed where the loop body ends. The \<open>size_t\<close> arguments reach
  the constructor of \<open>MyStruct\<close> unchanged and are converted to \<open>int\<close> there.
\<close>

definition BM_EmplaceBack_build :: "size_t \<Rightarrow> mem \<Rightarrow> error + vector \<times> mem" where
  "BM_EmplaceBack_build N s =
     and_then (reserve (unat N) vector_default s) (\<lambda>(vec, s1).
       for_loop 0 N
         (\<lambda>i (vec, s). emplace_back (static_cast_int i) (static_cast_int i) vec s)
         (vec, s1))"

definition BM_EmplaceBack_body :: "size_t \<Rightarrow> mem \<Rightarrow> error + mem" where
  "BM_EmplaceBack_body N s =
     and_then (BM_EmplaceBack_build N s) (\<lambda>(vec, s2).
       vector_dtor vec (DoNotOptimize_vec vec s2))"

text \<open>
  \<open>BM_PushBack\<close>, lines 50 to 57: the loop body is
  \<^verbatim>\<open>MyStruct obj(i, i); vec.push_back(obj);\<close>
\<close>

definition BM_PushBack_build :: "size_t \<Rightarrow> mem \<Rightarrow> error + vector \<times> mem" where
  "BM_PushBack_build N s =
     and_then (reserve (unat N) vector_default s) (\<lambda>(vec, s1).
       for_loop 0 N
         (\<lambda>i (vec, s). let obj = MyStruct (static_cast_int i) (static_cast_int i)
                        in push_back obj vec (materialize obj s))
         (vec, s1))"

definition BM_PushBack_body :: "size_t \<Rightarrow> mem \<Rightarrow> error + mem" where
  "BM_PushBack_body N s =
     and_then (BM_PushBack_build N s) (\<lambda>(vec, s2).
       vector_dtor vec (DoNotOptimize_vec vec s2))"

text \<open>
  \<open>BM_FromRange\<close>, lines 64 to 72:
  \<^verbatim>\<open>
  std::vector<MyStruct> vec( std::from_range,
      std::views::iota(0uz,N) |
      std::views::transform([](size_t i){ return MyStruct(i,i); }) );
  benchmark::DoNotOptimize(vec);
  \<close>
\<close>

definition BM_FromRange_build :: "size_t \<Rightarrow> mem \<Rightarrow> error + vector \<times> mem" where
  "BM_FromRange_build N s =
     vector_from_range
       (transform (iota 0 N) (\<lambda>i. MyStruct (static_cast_int i) (static_cast_int i))) s"

definition BM_FromRange_body :: "size_t \<Rightarrow> mem \<Rightarrow> error + mem" where
  "BM_FromRange_body N s =
     and_then (BM_FromRange_build N s) (\<lambda>(vec, s2).
       vector_dtor vec (DoNotOptimize_vec vec s2))"

text \<open>
  \<open>BM_FromRangeIterators\<close>, lines 79 to 88:
  \<^verbatim>\<open>
  auto range = std::views::iota(0uz,N) |
          std::views::transform([](size_t i){ return MyStruct(i,i); });
  std::vector<MyStruct> vec( std::begin(range), std::end(range) );
  benchmark::DoNotOptimize(vec);
  \<close>
\<close>

definition BM_FromRangeIterators_build :: "size_t \<Rightarrow> mem \<Rightarrow> error + vector \<times> mem" where
  "BM_FromRangeIterators_build N s =
     (let range = transform (iota 0 N) (\<lambda>i. MyStruct (static_cast_int i) (static_cast_int i))
      in vector_from_iterators range (view_begin range) (view_end range) s)"

definition BM_FromRangeIterators_body :: "size_t \<Rightarrow> mem \<Rightarrow> error + mem" where
  "BM_FromRangeIterators_body N s =
     and_then (BM_FromRangeIterators_build N s) (\<lambda>(vec, s2).
       vector_dtor vec (DoNotOptimize_vec vec s2))"

section \<open>The seven variants together\<close>

datatype variant =
    CBaseline | EmplaceBack | PushBack | FromRange | FromRangeIterators
  | CBaseline2 | CBaseline3

text \<open>What a variant calls \<open>vec\<close>: a raw pointer to a block, or a vector.\<close>

datatype handle = Ptr nat | Vec vector

fun denotes :: "handle \<Rightarrow> mem \<Rightarrow> MyStruct list option" where
  "denotes (Ptr p) s = read_block p s"
| "denotes (Vec v) s = read_vector v s"

definition as_ptr :: "error + nat \<times> mem \<Rightarrow> error + handle \<times> mem" where
  "as_ptr r = and_then r (\<lambda>(p, s). Inr (Ptr p, s))"

definition as_vec :: "error + vector \<times> mem \<Rightarrow> error + handle \<times> mem" where
  "as_vec r = and_then r (\<lambda>(v, s). Inr (Vec v, s))"

fun build :: "variant \<Rightarrow> size_t \<Rightarrow> mem \<Rightarrow> error + handle \<times> mem" where
  "build CBaseline N s = as_ptr (BM_CBaseline_build N s)"
| "build EmplaceBack N s = as_vec (BM_EmplaceBack_build N s)"
| "build PushBack N s = as_vec (BM_PushBack_build N s)"
| "build FromRange N s = as_vec (BM_FromRange_build N s)"
| "build FromRangeIterators N s = as_vec (BM_FromRangeIterators_build N s)"
| "build CBaseline2 N s = as_ptr (BM_CBaseline2_build N s)"
| "build CBaseline3 N s = as_ptr (BM_CBaseline3_build N s)"

fun body :: "variant \<Rightarrow> size_t \<Rightarrow> mem \<Rightarrow> error + mem" where
  "body CBaseline N s = BM_CBaseline_body N s"
| "body EmplaceBack N s = BM_EmplaceBack_body N s"
| "body PushBack N s = BM_PushBack_body N s"
| "body FromRange N s = BM_FromRange_body N s"
| "body FromRangeIterators N s = BM_FromRangeIterators_body N s"
| "body CBaseline2 N s = BM_CBaseline2_body N s"
| "body CBaseline3 N s = BM_CBaseline3_body N s"

text \<open>
  The collection one iteration produces: what \<open>vec\<close> denotes when the construction
  work is done; \<open>None\<close> when the work fails.
\<close>

definition produced :: "variant \<Rightarrow> size_t \<Rightarrow> mem \<Rightarrow> MyStruct list option" where
  "produced v N s = (case build v N s of Inl e \<Rightarrow> None | Inr (h, s') \<Rightarrow> denotes h s')"

definition is_raw :: "variant \<Rightarrow> bool" where
  "is_raw v = (v = CBaseline \<or> v = CBaseline2 \<or> v = CBaseline3)"

text \<open>The events a run adds to the trace of the state it starts from.\<close>

definition new_events :: "mem \<Rightarrow> mem \<Rightarrow> event list" where
  "new_events s s' = drop (length (trace s)) (trace s')"

fun is_write :: "nat \<Rightarrow> nat \<Rightarrow> event \<Rightarrow> bool" where
  "is_write p i (Construct q j v) = (p = q \<and> i = j)"
| "is_write p i (Assign q j v) = (p = q \<and> i = j)"
| "is_write p i (CopyConstruct q j v) = (p = q \<and> i = j)"
| "is_write p i e = False"

text \<open>How often slot \<open>i\<close> of block \<open>p\<close> is constructed or written before the block is released.\<close>

definition writes_before_release :: "nat \<Rightarrow> nat \<Rightarrow> event list \<Rightarrow> nat" where
  "writes_before_release p i evs =
     length (filter (is_write p i) (takeWhile (\<lambda>e. e \<noteq> Dealloc p) evs))"

fun makes_object :: "event \<Rightarrow> bool" where
  "makes_object (Construct p i v) = True"
| "makes_object (Assign p i v) = True"
| "makes_object (CopyConstruct p i v) = True"
| "makes_object (Materialize v) = True"
| "makes_object e = False"

fun slots_of :: "event \<Rightarrow> nat" where
  "slots_of (Alloc p n) = n div unat sizeof_MyStruct"
| "slots_of e = 0"

text \<open>
  What a run does to elements, storage management left aside: an object that comes to
  exist outside the container is listed without an index, an object put into a slot
  with the index of the slot.
\<close>

fun element_event :: "event \<Rightarrow> (nat option \<times> MyStruct) list" where
  "element_event (Materialize v) = [(None, v)]"
| "element_event (Construct p i v) = [(Some i, v)]"
| "element_event (Assign p i v) = [(Some i, v)]"
| "element_event (CopyConstruct p i v) = [(Some i, v)]"
| "element_event e = []"

definition element_events :: "event list \<Rightarrow> (nat option \<times> MyStruct) list" where
  "element_events evs = concat (map element_event evs)"

text \<open>The element slots a run obtains, and the objects it makes.\<close>

definition slots_allocated :: "event list \<Rightarrow> nat" where
  "slots_allocated evs = sum_list (map slots_of evs)"

definition objects_made :: "event list \<Rightarrow> nat" where
  "objects_made evs = length (filter makes_object evs)"

definition live_blocks :: "mem \<Rightarrow> nat list" where
  "live_blocks s = filter (\<lambda>p. blocks s ! p \<noteq> Freed) [0..<length (blocks s)]"

section \<open>The benchmark functions and their registration\<close>

text \<open>
  Of \<open>benchmark::State\<close> the functions use the arguments of the run (\<open>range\<close>), the
  timed loop, the number of iterations and \<open>SetItemsProcessed\<close>. The framework decides
  how often the loop runs; after the loop \<open>iterations()\<close> is that number. Arguments and
  counts are \<open>int64_t\<close>; \<^verbatim>\<open>size_t N = state.range(0)\<close> and
  \<^verbatim>\<open>state.iterations() * N\<close> convert them to \<open>size_t\<close>, and the product wraps.
\<close>

record bm_state =
  range_args :: "int list"
  max_iterations :: "64 word"
  items_processed :: "64 word option"

definition state_range :: "bm_state \<Rightarrow> nat \<Rightarrow> error + size_t" where
  "state_range st pos =
     (if pos < length (range_args st) then Inr (word_of_int (range_args st ! pos))
      else Inl NoSuchArg)"

definition state_iterations :: "bm_state \<Rightarrow> size_t" where
  "state_iterations st = max_iterations st"

definition SetItemsProcessed :: "size_t \<Rightarrow> bm_state \<Rightarrow> bm_state" where
  "SetItemsProcessed n st = st\<lparr>items_processed := Some n\<rparr>"

definition timed_loop :: "bm_state \<Rightarrow> (mem \<Rightarrow> error + mem) \<Rightarrow> mem \<Rightarrow> error + mem" where
  "timed_loop st f s = repeat (unat (max_iterations st)) f s"

definition BM_CBaseline :: "bm_state \<Rightarrow> mem \<Rightarrow> error + bm_state \<times> mem" where
  "BM_CBaseline st s =
     and_then (state_range st 0) (\<lambda>N.
     and_then (timed_loop st (BM_CBaseline_body N) s) (\<lambda>s'.
     Inr (SetItemsProcessed (state_iterations st * N) st, s')))"

definition BM_EmplaceBack :: "bm_state \<Rightarrow> mem \<Rightarrow> error + bm_state \<times> mem" where
  "BM_EmplaceBack st s =
     and_then (state_range st 0) (\<lambda>N.
     and_then (timed_loop st (BM_EmplaceBack_body N) s) (\<lambda>s'.
     Inr (SetItemsProcessed (state_iterations st * N) st, s')))"

definition BM_PushBack :: "bm_state \<Rightarrow> mem \<Rightarrow> error + bm_state \<times> mem" where
  "BM_PushBack st s =
     and_then (state_range st 0) (\<lambda>N.
     and_then (timed_loop st (BM_PushBack_body N) s) (\<lambda>s'.
     Inr (SetItemsProcessed (state_iterations st * N) st, s')))"

definition BM_FromRange :: "bm_state \<Rightarrow> mem \<Rightarrow> error + bm_state \<times> mem" where
  "BM_FromRange st s =
     and_then (state_range st 0) (\<lambda>N.
     and_then (timed_loop st (BM_FromRange_body N) s) (\<lambda>s'.
     Inr (SetItemsProcessed (state_iterations st * N) st, s')))"

definition BM_FromRangeIterators :: "bm_state \<Rightarrow> mem \<Rightarrow> error + bm_state \<times> mem" where
  "BM_FromRangeIterators st s =
     and_then (state_range st 0) (\<lambda>N.
     and_then (timed_loop st (BM_FromRangeIterators_body N) s) (\<lambda>s'.
     Inr (SetItemsProcessed (state_iterations st * N) st, s')))"

definition BM_CBaseline2 :: "bm_state \<Rightarrow> mem \<Rightarrow> error + bm_state \<times> mem" where
  "BM_CBaseline2 st s =
     and_then (state_range st 0) (\<lambda>N.
     and_then (timed_loop st (BM_CBaseline2_body N) s) (\<lambda>s'.
     Inr (SetItemsProcessed (state_iterations st * N) st, s')))"

definition BM_CBaseline3 :: "bm_state \<Rightarrow> mem \<Rightarrow> error + bm_state \<times> mem" where
  "BM_CBaseline3 st s =
     and_then (state_range st 0) (\<lambda>N.
     and_then (timed_loop st (BM_CBaseline3_body N) s) (\<lambda>s'.
     Inr (SetItemsProcessed (state_iterations st * N) st, s')))"

fun benchmark_function :: "variant \<Rightarrow> bm_state \<Rightarrow> mem \<Rightarrow> error + bm_state \<times> mem" where
  "benchmark_function CBaseline = BM_CBaseline"
| "benchmark_function EmplaceBack = BM_EmplaceBack"
| "benchmark_function PushBack = BM_PushBack"
| "benchmark_function FromRange = BM_FromRange"
| "benchmark_function FromRangeIterators = BM_FromRangeIterators"
| "benchmark_function CBaseline2 = BM_CBaseline2"
| "benchmark_function CBaseline3 = BM_CBaseline3"

text \<open>
  \<^verbatim>\<open>BENCHMARK(f)->Arg(a)->Repetitions(r)\<close>: the macro registers the function under
  its own name, \<open>Arg\<close> adds a run with the one argument \<open>a\<close>, \<open>Repetitions\<close> sets the
  number of repetitions. The model registers the variant the function implements.
\<close>

record registration =
  bm_name :: string
  bm_variant :: variant
  bm_args :: "int list list"
  bm_repetitions :: int

definition BENCHMARK :: "string \<Rightarrow> variant \<Rightarrow> registration" where
  "BENCHMARK n v = \<lparr>bm_name = n, bm_variant = v, bm_args = [], bm_repetitions = 0\<rparr>"

definition Arg :: "int \<Rightarrow> registration \<Rightarrow> registration" where
  "Arg a r = r\<lparr>bm_args := bm_args r @ [[a]]\<rparr>"

definition Repetitions :: "int \<Rightarrow> registration \<Rightarrow> registration" where
  "Repetitions n r = r\<lparr>bm_repetitions := n\<rparr>"

text \<open>Lines 136 to 142, in their order.\<close>

definition registered :: "registration list" where
  "registered =
     [Repetitions 20 (Arg 500000 (BENCHMARK ''BM_FromRange'' FromRange)),
      Repetitions 20 (Arg 500000 (BENCHMARK ''BM_FromRangeIterators'' FromRangeIterators)),
      Repetitions 20 (Arg 500000 (BENCHMARK ''BM_EmplaceBack'' EmplaceBack)),
      Repetitions 20 (Arg 500000 (BENCHMARK ''BM_PushBack'' PushBack)),
      Repetitions 20 (Arg 500000 (BENCHMARK ''BM_CBaseline'' CBaseline)),
      Repetitions 20 (Arg 500000 (BENCHMARK ''BM_CBaseline2'' CBaseline2)),
      Repetitions 20 (Arg 500000 (BENCHMARK ''BM_CBaseline3'' CBaseline3))]"

text \<open>
  One run of a registered benchmark on one of its argument lists, the loop running
  \<open>k\<close> times.
\<close>

definition run_registered :: "registration \<Rightarrow> int list \<Rightarrow> 64 word \<Rightarrow> mem \<Rightarrow> error + bm_state \<times> mem" where
  "run_registered r args k s =
     benchmark_function (bm_variant r)
       \<lparr>range_args = args, max_iterations = k, items_processed = None\<rparr> s"

definition empty_mem :: mem where
  "empty_mem = \<lparr>blocks = [], trace = []\<rparr>"

section \<open>Auxiliary notions for the proofs\<close>

text \<open>
  What every variant constructs for index \<open>i\<close>: \<^verbatim>\<open>MyStruct(i, i)\<close>, the index
  converted to \<open>int\<close> for each of the two parameters.
\<close>

definition element :: "nat \<Rightarrow> MyStruct" where
  "element i = MyStruct (static_cast_int (of_nat i)) (static_cast_int (of_nat i))"

text \<open>
  The counts a variant can handle: a raw-buffer variant needs the byte count
  \<open>sizeof(MyStruct) * N\<close> not to wrap, a vector variant needs \<open>N\<close> not to exceed
  \<open>max_size\<close>.
\<close>

definition in_range :: "variant \<Rightarrow> size_t \<Rightarrow> bool" where
  "in_range v N = (if is_raw v then unat N < 2 ^ 61 else unat N \<le> max_size)"

text \<open>
  The invariant of the fill loop of a raw-buffer variant after \<open>k\<close> iterations: the
  block allocated last has its first \<open>k\<close> of \<open>n\<close> slots constructed, and the trace has
  grown by the events \<open>g i\<close> of each index.
\<close>

definition raw_inv ::
  "block list \<Rightarrow> event list \<Rightarrow> nat \<Rightarrow> (nat \<Rightarrow> event list) \<Rightarrow> nat \<Rightarrow> mem \<Rightarrow> bool" where
  "raw_inv B T n g k t =
     (blocks t = B @ [Live (map (\<lambda>i. Some (element i)) [0..<k] @ replicate (n - k) None)]
      \<and> trace t = T @ concat (map g [0..<k]))"

text \<open>
  The invariant of a vector that holds the elements \<open>c\<close>: its storage, if any, is a
  live block allocated after the first \<open>base\<close> blocks, as long as the capacity, and
  starts with the elements.
\<close>

definition vec_ok :: "nat \<Rightarrow> MyStruct list \<Rightarrow> vector \<times> mem \<Rightarrow> bool" where
  "vec_ok base c vs =
     (case vs of (v, s) \<Rightarrow>
        vsize v = length c \<and> vsize v \<le> capacity v \<and> capacity v \<le> max_size
        \<and> base \<le> length (blocks s)
        \<and> (case data v of
              None \<Rightarrow> capacity v = 0
            | Some p \<Rightarrow>
                base \<le> p \<and> p < length (blocks s) \<and> 0 < capacity v
                \<and> (case blocks s ! p of
                      Live sl \<Rightarrow> length sl = capacity v \<and> take (vsize v) sl = map Some c
                    | Freed \<Rightarrow> False)))"

text \<open>A step that adds events to the trace, none of them about an element.\<close>

definition quiet :: "mem \<Rightarrow> mem \<Rightarrow> bool" where
  "quiet s s' = (\<exists>evs. trace s' = trace s @ evs \<and> element_events evs = [])"

declare for_loop.simps [simp del]
declare iter_loop.simps [simp del]

section \<open>Basic facts\<close>

lemma and_then_Inr [simp]: "and_then (Inr a) f = f a"
  by (simp add: and_then_def)

lemma and_then_Inl [simp]: "and_then (Inl e) f = Inl e"
  by (simp add: and_then_def)

subsection \<open>Loops\<close>

lemma unat_inc: "(i::size_t) < N \<Longrightarrow> unat (i + 1) = Suc (unat i)"
proof -
  assume "i < N"
  then have "unat i < unat N" by (simp add: word_less_nat_alt)
  moreover have "unat N < 2 ^ 64" using unsigned_less [of N] by simp
  ultimately have "unat i + 1 < 2 ^ 64" by simp
  then show ?thesis
    by (simp add: unat_word_ariths)
qed

lemma inc_le_word: "(i::size_t) < N \<Longrightarrow> i + 1 \<le> N"
  by (simp add: inc_le)

lemma for_loop_invariant:
  assumes "I (unat i) s" and "i \<le> N"
    and step: "\<And>k t. unat i \<le> k \<Longrightarrow> k < unat N \<Longrightarrow> I k t \<Longrightarrow>
          \<exists>t'. f (of_nat k) t = Inr t' \<and> I (Suc k) t'"
  shows "\<exists>s'. for_loop i N f s = Inr s' \<and> I (unat N) s'"
  using assms
proof (induction i N f s rule: for_loop.induct)
  case (1 i N f s)
  show ?case
  proof (cases "i < N")
    case True
    then have lt: "unat i < unat N" by (simp add: word_less_nat_alt)
    from "1.prems"(3) [OF le_refl lt "1.prems"(1)]
    obtain t' where t': "f i s = Inr t'" "f i s = Inr t'" "I (Suc (unat i)) t'"
      by auto
    have suc: "unat (i + 1) = Suc (unat i)" using True by (rule unat_inc)
    have "\<exists>s'. for_loop (i + 1) N f t' = Inr s' \<and> I (unat N) s'"
    proof (rule "1.IH" [OF True t'(2)])
      show "I (unat (i + 1)) t'" using t'(3) suc by simp
      show "i + 1 \<le> N" using True by (rule inc_le_word)
      fix k t assume "unat (i + 1) \<le> k" "k < unat N" "I k t"
      then show "\<exists>t'. f (of_nat k) t = Inr t' \<and> I (Suc k) t'"
        using "1.prems"(3) [of k t] suc by simp
    qed
    then show ?thesis
      using True t'(2) by (subst for_loop.simps) simp
  next
    case False
    with "1.prems"(2) have "i = N" by simp
    then show ?thesis
      using "1.prems"(1) by (subst for_loop.simps) simp
  qed
qed

lemma for_loop_fails:
  assumes "I (unat i) s" and "unat i \<le> K" and "K < unat N"
    and step: "\<And>k t. unat i \<le> k \<Longrightarrow> k < K \<Longrightarrow> I k t \<Longrightarrow>
          \<exists>t'. f (of_nat k) t = Inr t' \<and> I (Suc k) t'"
    and stop: "\<And>t. I K t \<Longrightarrow> f (of_nat K) t = Inl e"
  shows "for_loop i N f s = Inl e"
  using assms
proof (induction i N f s rule: for_loop.induct)
  case (1 i N f s)
  from "1.prems"(2,3) have lt: "i < N" by (simp add: word_less_nat_alt)
  show ?case
  proof (cases "unat i = K")
    case True
    then have "f i s = Inl e"
      using "1.prems"(5) [of s] "1.prems"(1) by auto
    then show ?thesis
      using lt by (subst for_loop.simps) simp
  next
    case False
    with "1.prems"(2) have ltK: "unat i < K" by simp
    from "1.prems"(4) [OF le_refl ltK "1.prems"(1)]
    obtain t' where t': "f i s = Inr t'" "I (Suc (unat i)) t'"
      by auto
    have suc: "unat (i + 1) = Suc (unat i)" using lt by (rule unat_inc)
    have "for_loop (i + 1) N f t' = Inl e"
    proof (rule "1.IH" [OF lt t'(1)])
      show "I (unat (i + 1)) t'" using t'(2) suc by simp
      show "unat (i + 1) \<le> K" using ltK suc by simp
      show "K < unat N" by (rule "1.prems"(3))
      fix k t assume "unat (i + 1) \<le> k" "k < K" "I k t"
      then show "\<exists>t'. f (of_nat k) t = Inr t' \<and> I (Suc k) t'"
        using "1.prems"(4) [of k t] suc by simp
    next
      fix t assume "I K t"
      then show "f (of_nat K) t = Inl e" by (rule "1.prems"(5))
    qed
    then show ?thesis
      using lt t'(1) by (subst for_loop.simps) simp
  qed
qed

lemma iter_loop_for_loop: "i \<le> N \<Longrightarrow> iter_loop i N f s = for_loop i N f s"
proof (induction i N f s rule: for_loop.induct)
  case (1 i N f s)
  show ?case
  proof (cases "i < N")
    case True
    then have ne: "i \<noteq> N" by auto
    have le: "i + 1 \<le> N" using True by (rule inc_le_word)
    show ?thesis
    proof (cases "f i s")
      case (Inl e)
      then show ?thesis using True ne
        by (subst iter_loop.simps, subst for_loop.simps) simp
    next
      case (Inr t)
      then show ?thesis using True ne "1.IH" [OF True Inr le]
        by (subst iter_loop.simps, subst for_loop.simps) simp
    qed
  next
    case False
    with "1.prems" have "i = N" by simp
    then show ?thesis
      by (subst iter_loop.simps, subst for_loop.simps) simp
  qed
qed

lemma repeat_invariant:
  assumes "I s" and "\<And>t. I t \<Longrightarrow> \<exists>t'. g t = Inr t' \<and> I t'"
  shows "\<exists>s'. repeat k g s = Inr s' \<and> I s'"
  using assms(1)
proof (induction k arbitrary: s)
  case 0
  then show ?case by simp
next
  case (Suc k)
  from assms(2) [OF Suc.prems] obtain t' where "g s = Inr t'" "I t'" by auto
  with Suc.IH [of t'] show ?case by simp
qed

subsection \<open>The raw-buffer variants\<close>

lemma slots_of_bytes: "unat (sizeof_MyStruct * N) div unat sizeof_MyStruct = unat N mod 2 ^ 61"
proof -
  have "unat (sizeof_MyStruct * N) = (8 * unat N) mod (8 * 2 ^ 61)"
    by (simp add: sizeof_MyStruct_def unat_word_ariths)
  also have "\<dots> = 8 * (unat N mod 2 ^ 61)"
    by (simp only: mult_mod_right)
  finally show ?thesis
    by (simp add: sizeof_MyStruct_def)
qed

lemma unat_of_nat_small: "k < unat (N::size_t) \<Longrightarrow> unat (of_nat k :: size_t) = k"
  by (rule le_unat_uoi [of k N]) simp

lemma fill_slot:
  assumes "k < n"
  shows "(map (\<lambda>i. Some (element i)) [0..<k] @ replicate (n - k) None)[k := Some (element k)]
       = map (\<lambda>i. Some (element i)) [0..<Suc k] @ replicate (n - Suc k) None"
proof -
  from assms obtain m where m: "n - k = Suc m" "n - Suc k = m"
    by (cases "n - k") auto
  show ?thesis
    by (simp add: m list_update_append)
qed

lemma store_raw:
  assumes "blocks t = B @ [Live (map (\<lambda>i. Some (element i)) [0..<k] @ replicate (n - k) None)]"
    and "k < n"
  shows "store (length B) k (element k) t
       = Inr (t\<lparr>blocks := B @ [Live (map (\<lambda>i. Some (element i)) [0..<Suc k] @ replicate (n - Suc k) None)]\<rparr>)"
  using assms(2) by (simp add: store_def assms(1) fill_slot del: upt_Suc)

lemma store_raw_fails:
  assumes "blocks t = B @ [Live (map (\<lambda>i. Some (element i)) [0..<n])]"
  shows "store (length B) n v t = Inl OutOfBounds"
  by (simp add: store_def assms)

lemma element_fun: "element = (\<lambda>i. MyStruct (static_cast_int (of_nat i)) (static_cast_int (of_nat i)))"
  by (rule ext) (simp add: element_def)

lemma element_of_index: "k < unat (N::size_t) \<Longrightarrow>
  MyStruct (static_cast_int (of_nat k)) (static_cast_int (of_nat k)) = element k"
  by (simp add: element_def)

lemma mem_eqI: "blocks (t::mem) = b \<Longrightarrow> trace t = e \<Longrightarrow> t = \<lparr>blocks = b, trace = e\<rparr>"
  by (cases t) simp

lemma raw_loop:
  assumes ok: "\<And>k t. k < n \<Longrightarrow> k < unat N \<Longrightarrow> raw_inv B T n g k t \<Longrightarrow>
             \<exists>t'. f (of_nat k) t = Inr t' \<and> raw_inv B T n g (Suc k) t'"
    and bad: "\<And>t. n < unat N \<Longrightarrow> raw_inv B T n g n t \<Longrightarrow> f (of_nat n) t = Inl OutOfBounds"
    and init: "raw_inv B T n g 0 s1"
  shows "for_loop 0 N f s1 =
     (if unat N \<le> n
      then Inr \<lparr>blocks = B @ [Live (map (\<lambda>i. Some (element i)) [0..<unat N] @ replicate (n - unat N) None)],
                trace = T @ concat (map g [0..<unat N])\<rparr>
      else Inl OutOfBounds)"
proof (cases "unat N \<le> n")
  case True
  have "\<exists>t. for_loop 0 N f s1 = Inr t \<and> raw_inv B T n g (unat N) t"
  proof (rule for_loop_invariant)
    show "raw_inv B T n g (unat (0::size_t)) s1" using init by simp
    show "(0::size_t) \<le> N" by simp
    fix k t assume "k < unat N" "raw_inv B T n g k t"
    then show "\<exists>t'. f (of_nat k) t = Inr t' \<and> raw_inv B T n g (Suc k) t'"
      using ok [of k t] True by simp
  qed
  then obtain t where t: "for_loop 0 N f s1 = Inr t" "raw_inv B T n g (unat N) t"
    by auto
  from t(2) have "t = \<lparr>blocks = B @ [Live (map (\<lambda>i. Some (element i)) [0..<unat N] @ replicate (n - unat N) None)],
                trace = T @ concat (map g [0..<unat N])\<rparr>"
    by (intro mem_eqI) (simp_all add: raw_inv_def)
  with t(1) True show ?thesis by simp
next
  case False
  then have lt: "n < unat N" by simp
  have "for_loop 0 N f s1 = Inl OutOfBounds"
  proof (rule for_loop_fails [where K = n and I = "raw_inv B T n g"])
    show "raw_inv B T n g (unat (0::size_t)) s1" using init by simp
    show "unat (0::size_t) \<le> n" by simp
    show "n < unat N" by (rule lt)
  next
    fix k t assume "k < n" "raw_inv B T n g k t"
    then show "\<exists>t'. f (of_nat k) t = Inr t' \<and> raw_inv B T n g (Suc k) t'"
      using ok [of k t] lt by simp
  next
    fix t assume "raw_inv B T n g n t"
    then show "f (of_nat n) t = Inl OutOfBounds"
      using bad lt by simp
  qed
  with False show ?thesis by simp
qed

lemma placement_step:
  assumes "k < n" and "k < unat (N::size_t)"
    and "raw_inv B T n (\<lambda>i. [Construct (length B) i (element i)]) k t"
  shows "\<exists>t'. placement_new (length B) (unat (of_nat k :: size_t))
                 (static_cast_int (of_nat k)) (static_cast_int (of_nat k)) t = Inr t'
            \<and> raw_inv B T n (\<lambda>i. [Construct (length B) i (element i)]) (Suc k) t'"
proof -
  from assms(3) have b: "blocks t = B @ [Live (map (\<lambda>i. Some (element i)) [0..<k] @ replicate (n - k) None)]"
    by (simp add: raw_inv_def)
  from store_raw [OF b assms(1)] assms(3) assms(2) show ?thesis
    by (simp add: placement_new_def unat_of_nat_small element_of_index emit_def raw_inv_def)
qed

lemma placement_stop:
  assumes "n < unat (N::size_t)"
    and "raw_inv B T n g n t"
  shows "placement_new (length B) (unat (of_nat n :: size_t)) a b t = Inl OutOfBounds"
proof -
  from assms(2) have b: "blocks t = B @ [Live (map (\<lambda>i. Some (element i)) [0..<n])]"
    by (simp add: raw_inv_def)
  from store_raw_fails [OF b] assms(1) show ?thesis
    by (simp add: placement_new_def unat_of_nat_small)
qed

lemma assign_step:
  assumes "k < n" and "k < unat (N::size_t)"
    and "raw_inv B T n (\<lambda>i. [Materialize (element i), Assign (length B) i (element i)]) k t"
  shows "\<exists>t'. assign (length B) (unat (of_nat k :: size_t))
                 (MyStruct (static_cast_int (of_nat k)) (static_cast_int (of_nat k)))
                 (materialize (MyStruct (static_cast_int (of_nat k)) (static_cast_int (of_nat k))) t) = Inr t'
            \<and> raw_inv B T n (\<lambda>i. [Materialize (element i), Assign (length B) i (element i)]) (Suc k) t'"
proof -
  from assms(3) have b: "blocks (materialize (element k) t)
      = B @ [Live (map (\<lambda>i. Some (element i)) [0..<k] @ replicate (n - k) None)]"
    by (simp add: raw_inv_def materialize_def emit_def)
  from store_raw [OF b assms(1)] assms(3) assms(2) show ?thesis
    by (simp add: assign_def unat_of_nat_small element_of_index emit_def raw_inv_def materialize_def Let_def)
qed

lemma assign_stop:
  assumes "n < unat (N::size_t)"
    and "raw_inv B T n g n t"
  shows "assign (length B) (unat (of_nat n :: size_t)) v (materialize v t) = Inl OutOfBounds"
proof -
  from assms(2) have b: "blocks (materialize v t) = B @ [Live (map (\<lambda>i. Some (element i)) [0..<n])]"
    by (simp add: raw_inv_def materialize_def emit_def)
  from store_raw_fails [OF b] assms(1) show ?thesis
    by (simp add: assign_def unat_of_nat_small)
qed

lemma new_bytes_raw:
  "new_bytes (sizeof_MyStruct * N) s = (p, s1) \<Longrightarrow>
     p = length (blocks s) \<and>
     raw_inv (blocks s) (trace s @ [Alloc (length (blocks s)) (unat (sizeof_MyStruct * N))])
       (unat N mod 2 ^ 61) g 0 s1"
  by (auto simp: new_bytes_def raw_inv_def emit_def slots_of_bytes)

lemma mod_ge_iff: "(a::nat) \<le> a mod b \<longleftrightarrow> a < b \<or> b = 0"
  by (metis mod_less mod_less_divisor mod_by_0 le_refl not_gr_zero not_le order.strict_trans2)

lemma unat_bytes: "unat N < 2 ^ 61 \<Longrightarrow> unat (sizeof_MyStruct * N) = 8 * unat N"
  by (simp add: sizeof_MyStruct_def unat_word_ariths)

lemma BM_CBaseline_build_eq:
  "BM_CBaseline_build N s =
     (if unat N < 2 ^ 61
      then Inr (length (blocks s),
             \<lparr>blocks = blocks s @ [Live (map (\<lambda>i. Some (element i)) [0..<unat N])],
              trace = trace s @ Alloc (length (blocks s)) (8 * unat N)
                        # map (\<lambda>i. Construct (length (blocks s)) i (element i)) [0..<unat N]\<rparr>)
      else Inl OutOfBounds)"
proof -
  obtain p s1 where ns: "new_bytes (sizeof_MyStruct * N) s = (p, s1)"
    by (cases "new_bytes (sizeof_MyStruct * N) s")
  let ?g = "\<lambda>i. [Construct (length (blocks s)) i (element i)]"
  from new_bytes_raw [OF ns, of ?g] have p: "p = length (blocks s)"
    and init: "raw_inv (blocks s) (trace s @ [Alloc (length (blocks s)) (unat (sizeof_MyStruct * N))])
       (unat N mod 2 ^ 61) ?g 0 s1"
    by simp_all
  have loop: "for_loop 0 N (\<lambda>i. placement_new (length (blocks s)) (unat i) (static_cast_int i) (static_cast_int i)) s1 =
     (if unat N \<le> unat N mod 2 ^ 61
      then Inr \<lparr>blocks = blocks s @ [Live (map (\<lambda>i. Some (element i)) [0..<unat N] @ replicate (unat N mod 2 ^ 61 - unat N) None)],
                trace = (trace s @ [Alloc (length (blocks s)) (unat (sizeof_MyStruct * N))]) @ concat (map ?g [0..<unat N])\<rparr>
      else Inl OutOfBounds)"
    by (rule raw_loop [OF _ _ init]) (simp_all add: placement_step placement_stop)
  show ?thesis
    using loop by (simp add: BM_CBaseline_build_def ns p mod_ge_iff unat_bytes)
qed

lemma construct_at_eq: "construct_at p i a b = placement_new p i a b"
  by (rule ext) (simp add: construct_at_def)

lemma BM_CBaseline3_build_eq: "BM_CBaseline3_build N s = BM_CBaseline_build N s"
  by (simp add: BM_CBaseline3_build_def BM_CBaseline_build_def construct_at_eq)

lemma BM_CBaseline2_build_eq:
  "BM_CBaseline2_build N s =
     (if unat N < 2 ^ 61
      then Inr (length (blocks s),
             \<lparr>blocks = blocks s @ [Live (map (\<lambda>i. Some (element i)) [0..<unat N])],
              trace = trace s @ Alloc (length (blocks s)) (8 * unat N)
                        # concat (map (\<lambda>i. [Materialize (element i), Assign (length (blocks s)) i (element i)])
                            [0..<unat N])\<rparr>)
      else Inl OutOfBounds)"
proof -
  obtain p s1 where ns: "new_bytes (sizeof_MyStruct * N) s = (p, s1)"
    by (cases "new_bytes (sizeof_MyStruct * N) s")
  let ?g = "\<lambda>i. [Materialize (element i), Assign (length (blocks s)) i (element i)]"
  from new_bytes_raw [OF ns, of ?g] have p: "p = length (blocks s)"
    and init: "raw_inv (blocks s) (trace s @ [Alloc (length (blocks s)) (unat (sizeof_MyStruct * N))])
       (unat N mod 2 ^ 61) ?g 0 s1"
    by simp_all
  have loop: "for_loop 0 N (\<lambda>i t. let tmp = MyStruct (static_cast_int i) (static_cast_int i)
                  in assign (length (blocks s)) (unat i) tmp (materialize tmp t)) s1 =
     (if unat N \<le> unat N mod 2 ^ 61
      then Inr \<lparr>blocks = blocks s @ [Live (map (\<lambda>i. Some (element i)) [0..<unat N] @ replicate (unat N mod 2 ^ 61 - unat N) None)],
                trace = (trace s @ [Alloc (length (blocks s)) (unat (sizeof_MyStruct * N))]) @ concat (map ?g [0..<unat N])\<rparr>
      else Inl OutOfBounds)"
    by (rule raw_loop [OF _ _ init]) (simp_all add: Let_def assign_step assign_stop)
  show ?thesis
    using loop by (simp add: BM_CBaseline2_build_def ns p mod_ge_iff unat_bytes)
qed

lemma those_map_Some: "those (map (\<lambda>i. Some (f i)) xs) = Some (map f xs)"
  by (induction xs) simp_all

lemma raw_finish:
  assumes "length B = p"
  shows "and_then (delete_array p \<lparr>blocks = B @ [Live sl], trace = T\<rparr>)
           (\<lambda>s3. Inr (DoNotOptimize_ptr p s3))
       = Inr \<lparr>blocks = B @ [Freed], trace = T @ [Dealloc p, Observe None]\<rparr>"
  using assms
  by (auto simp: delete_array_def release_def emit_def DoNotOptimize_ptr_def read_block_def)

lemma BM_CBaseline_body_eq:
  "BM_CBaseline_body N s =
     (if unat N < 2 ^ 61
      then Inr \<lparr>blocks = blocks s @ [Freed],
              trace = trace s @ Alloc (length (blocks s)) (8 * unat N)
                        # map (\<lambda>i. Construct (length (blocks s)) i (element i)) [0..<unat N]
                        @ [Dealloc (length (blocks s)), Observe None]\<rparr>
      else Inl OutOfBounds)"
  by (simp add: BM_CBaseline_body_def BM_CBaseline_build_eq raw_finish)

lemma BM_CBaseline3_body_eq: "BM_CBaseline3_body N s = BM_CBaseline_body N s"
  by (simp add: BM_CBaseline3_body_def BM_CBaseline_body_def BM_CBaseline3_build_eq)

lemma BM_CBaseline2_body_eq:
  "BM_CBaseline2_body N s =
     (if unat N < 2 ^ 61
      then Inr \<lparr>blocks = blocks s @ [Freed],
              trace = trace s @ Alloc (length (blocks s)) (8 * unat N)
                        # concat (map (\<lambda>i. [Materialize (element i), Assign (length (blocks s)) i (element i)])
                            [0..<unat N])
                        @ [Dealloc (length (blocks s)), Observe None]\<rparr>
      else Inl OutOfBounds)"
  by (simp add: BM_CBaseline2_body_def BM_CBaseline2_build_eq raw_finish)

lemma read_block_filled:
  "read_block (length B) \<lparr>blocks = B @ [Live (map (\<lambda>i. Some (f i)) xs)], trace = T\<rparr> = Some (map f xs)"
  by (simp add: read_block_def those_map_Some)

subsection \<open>Vectors\<close>

lemma max_size_val: "max_size = 2 ^ 60 - 1"
  by (simp add: max_size_def sizeof_MyStruct_def)

lemma allocate_pos:
  assumes "0 < n" and "n \<le> max_size"
  shows "allocate n s =
     (Some (length (blocks s)),
      \<lparr>blocks = blocks s @ [Live (replicate n None)],
       trace = trace s @ [Alloc (length (blocks s)) (8 * n)]\<rparr>)"
proof -
  from assms(2) have small: "n < 2 ^ 61" and small': "n < 2 ^ 64"
    by (simp_all add: max_size_val)
  have u: "unat (of_nat n :: size_t) = n"
    using small' by (simp add: unat_of_nat)
  have m: "sizeof_MyStruct * of_nat n = (of_nat n :: size_t) * sizeof_MyStruct"
    by simp
  have slots: "unat ((of_nat n :: size_t) * sizeof_MyStruct) div unat sizeof_MyStruct = n"
    using slots_of_bytes [of "of_nat n"] small by (simp add: u m [symmetric])
  have bytes: "unat ((of_nat n :: size_t) * sizeof_MyStruct) = 8 * n"
    using unat_bytes [of "of_nat n"] small by (simp add: u m [symmetric])
  have sz: "unat sizeof_MyStruct = 8"
    by (simp add: sizeof_MyStruct_def)
  show ?thesis
    using assms(1) by (cases s) (simp add: allocate_def new_bytes_def bytes sz emit_def)
qed

lemma relocate_ok:
  assumes ok: "vec_ok base c (v, s)" and "vsize v \<le> n"
    and s1: "blocks s1 = blocks s @ [Live (replicate n None)]"
  shows "\<exists>s2. relocate (data v) (Some (length (blocks s))) (vsize v) s1 = Inr s2
            \<and> blocks s2 = blocks s @ [Live (map Some c @ replicate (n - length c) None)]"
proof (cases "vsize v = 0")
  case True
  with ok have "c = []"
    by (simp add: vec_ok_def)
  with True s1 show ?thesis
    by (simp add: relocate_def)
next
  case False
  with ok obtain p where dv: "data v = Some p"
    by (cases "data v") (auto simp: vec_ok_def)
  with ok obtain sl where sl: "blocks s ! p = Live sl"
    by (cases "blocks s ! p") (auto simp: vec_ok_def)
  from ok dv sl have p: "data v = Some p" "p < length (blocks s)" "blocks s ! p = Live sl"
      "length sl = capacity v" "take (vsize v) sl = map Some c" "vsize v = length c"
      "vsize v \<le> capacity v"
    by (auto simp: vec_ok_def)
  have "blocks s1 ! p = Live sl" "blocks s1 ! length (blocks s) = Live (replicate n None)"
    using p(2,3) by (simp_all add: s1 nth_append)
  with False p assms(2) show ?thesis
    by (simp add: relocate_def emit_def s1)
qed

lemma deallocate_ok:
  assumes ok: "vec_ok base c (v, s)"
    and s2: "blocks s2 = blocks s @ [b]"
  shows "\<exists>s3. deallocate (data v) s2 = Inr s3
            \<and> (\<exists>B. blocks s3 = B @ [b] \<and> length B = length (blocks s))"
proof (cases "data v")
  case None
  with s2 show ?thesis
    by (simp add: deallocate_def)
next
  case (Some p)
  with ok have p: "p < length (blocks s)" "blocks s ! p \<noteq> Freed"
    by (auto simp: vec_ok_def split: block.splits)
  then have "blocks s2 ! p \<noteq> Freed" "p < length (blocks s2)"
    by (simp_all add: s2 nth_append)
  with Some p show ?thesis
    by (simp add: deallocate_def release_def emit_def s2 list_update_append)
qed

lemma reallocate_ok:
  assumes ok: "vec_ok base c (v, s)" and "vsize v \<le> n" and "0 < n" and "n \<le> max_size"
  shows "\<exists>s'. reallocate n v s = Inr (v\<lparr>data := Some (length (blocks s)), capacity := n\<rparr>, s')
            \<and> vec_ok base c (v\<lparr>data := Some (length (blocks s)), capacity := n\<rparr>, s')
            \<and> length (blocks s') = Suc (length (blocks s))"
proof -
  let ?q = "length (blocks s)"
  let ?s1 = "\<lparr>blocks = blocks s @ [Live (replicate n None)],
       trace = trace s @ [Alloc (length (blocks s)) (8 * n)]\<rparr>"
  have alloc: "allocate n s = (Some ?q, ?s1)"
    using assms(3,4) by (rule allocate_pos)
  from relocate_ok [OF ok assms(2), of ?s1]
  obtain s2 where s2: "relocate (data v) (Some ?q) (vsize v) ?s1 = Inr s2"
      "blocks s2 = blocks s @ [Live (map Some c @ replicate (n - length c) None)]"
    by auto
  from deallocate_ok [OF ok s2(2)]
  obtain s3 B where s3: "deallocate (data v) s2 = Inr s3"
      "blocks s3 = B @ [Live (map Some c @ replicate (n - length c) None)]"
      "length B = length (blocks s)"
    by auto
  have re: "reallocate n v s = Inr (v\<lparr>data := Some ?q, capacity := n\<rparr>, s3)"
    by (simp add: reallocate_def alloc s2(1) s3(1))
  from ok have "vsize v = length c" "base \<le> length (blocks s)"
    by (simp_all add: vec_ok_def)
  with assms(2-4) s3(2,3)
  have "vec_ok base c (v\<lparr>data := Some ?q, capacity := n\<rparr>, s3)"
    by (simp add: vec_ok_def nth_append)
  with re s3(2,3) show ?thesis
    by simp
qed

lemma take_Suc_update: "k < length sl \<Longrightarrow> take (Suc k) (sl[k := a]) = take k sl @ [a]"
  by (simp add: take_Suc_conv_app_nth)

lemma store_end:
  assumes ok: "vec_ok base c (v, s)" and room: "vsize v < capacity v"
  shows "\<exists>p s'. data v = Some p \<and> store p (vsize v) obj s = Inr s'
           \<and> trace s' = trace s \<and> length (blocks s') = length (blocks s)
           \<and> vec_ok base (c @ [obj]) (v\<lparr>vsize := Suc (vsize v)\<rparr>, s')"
proof -
  from ok room obtain p where dv: "data v = Some p"
    by (cases "data v") (auto simp: vec_ok_def)
  with ok obtain sl where sl: "blocks s ! p = Live sl"
    by (cases "blocks s ! p") (auto simp: vec_ok_def)
  from ok dv sl have p: "p < length (blocks s)" "base \<le> p" "base \<le> length (blocks s)"
      "length sl = capacity v" "take (vsize v) sl = map Some c" "vsize v = length c"
      "capacity v \<le> max_size"
    by (auto simp: vec_ok_def)
  from room p(4) have k: "vsize v < length sl" by simp
  let ?s' = "s\<lparr>blocks := (blocks s)[p := Live (sl[vsize v := Some obj])]\<rparr>"
  have st: "store p (vsize v) obj s = Inr ?s'"
    using p(1) sl k by (simp add: store_def)
  have "take (Suc (vsize v)) (sl[vsize v := Some obj]) = map Some (c @ [obj])"
    using k p(5) by (simp add: take_Suc_update)
  with p room have "vec_ok base (c @ [obj]) (v\<lparr>vsize := Suc (vsize v)\<rparr>, ?s')"
    by (simp add: vec_ok_def dv)
  with dv st show ?thesis
    by simp
qed

lemma blocks_emit: "blocks (emit e s) = blocks s"
  by (simp add: emit_def)

lemma vec_ok_emit: "vec_ok base c (v, s) \<Longrightarrow> vec_ok base c (v, emit e s)"
  by (auto simp: vec_ok_def blocks_emit split: option.splits)

lemma copy_end_ok:
  assumes ok: "vec_ok base c (v, s)" and room: "vsize v < capacity v"
  shows "\<exists>v' s'. copy_end obj v s = Inr (v', s') \<and> vec_ok base (c @ [obj]) (v', s')
           \<and> capacity v' = capacity v \<and> length (blocks s') = length (blocks s)"
proof -
  from store_end [OF ok room, of obj] obtain p s' where
    "data v = Some p" "store p (vsize v) obj s = Inr s'" "length (blocks s') = length (blocks s)"
    "vec_ok base (c @ [obj]) (v\<lparr>vsize := Suc (vsize v)\<rparr>, s')"
    by auto
  then show ?thesis
    by (simp add: copy_end_def copy_construct_def blocks_emit vec_ok_emit)
qed

lemma construct_end_ok:
  assumes ok: "vec_ok base c (v, s)" and room: "vsize v < capacity v"
  shows "\<exists>v' s'. construct_end a b v s = Inr (v', s') \<and> vec_ok base (c @ [MyStruct a b]) (v', s')
           \<and> capacity v' = capacity v \<and> length (blocks s') = length (blocks s)"
proof -
  from store_end [OF ok room, of "MyStruct a b"] obtain p s' where
    "data v = Some p" "store p (vsize v) (MyStruct a b) s = Inr s'"
    "length (blocks s') = length (blocks s)"
    "vec_ok base (c @ [MyStruct a b]) (v\<lparr>vsize := Suc (vsize v)\<rparr>, s')"
    by auto
  then show ?thesis
    by (simp add: construct_end_def construct_at_def placement_new_def blocks_emit vec_ok_emit)
qed

lemma make_room_ok:
  assumes ok: "vec_ok base c (v, s)" and "length c < max_size"
  shows "\<exists>v' s'. make_room v s = Inr (v', s') \<and> vec_ok base c (v', s')
           \<and> vsize v' < capacity v' \<and> length (blocks s) \<le> length (blocks s')"
proof (cases "vsize v = capacity v")
  case False
  with ok have "vsize v < capacity v"
    by (simp add: vec_ok_def)
  with ok False show ?thesis
    by (simp add: make_room_def)
next
  case True
  from ok have k: "vsize v = length c"
    by (simp add: vec_ok_def)
  let ?n = "grown_capacity (vsize v)"
  have n: "vsize v < ?n" "0 < ?n" "?n \<le> max_size"
    using assms(2) k by (simp_all add: grown_capacity_def)
  from reallocate_ok [OF ok less_imp_le [OF n(1)] n(2) n(3)]
  obtain s' where "reallocate ?n v s = Inr (v\<lparr>data := Some (length (blocks s)), capacity := ?n\<rparr>, s')"
    "vec_ok base c (v\<lparr>data := Some (length (blocks s)), capacity := ?n\<rparr>, s')"
    "length (blocks s') = Suc (length (blocks s))"
    by auto
  with True n assms(2) k show ?thesis
    by (simp add: make_room_def)
qed

lemma make_room_full:
  assumes ok: "vec_ok base c (v, s)" and "max_size \<le> length c"
  shows "make_room v s = Inl LengthError"
  using assms by (simp add: make_room_def vec_ok_def)

lemma push_back_ok:
  assumes ok: "vec_ok base c (v, s)" and "length c < max_size"
  shows "\<exists>v' s'. push_back obj v s = Inr (v', s') \<and> vec_ok base (c @ [obj]) (v', s')"
proof -
  from make_room_ok [OF assms] obtain v1 s1 where
    m: "make_room v s = Inr (v1, s1)" "vec_ok base c (v1, s1)" "vsize v1 < capacity v1"
    by auto
  from copy_end_ok [OF m(2,3), of obj] m(1) show ?thesis
    by (auto simp: push_back_def)
qed

lemma emplace_back_ok:
  assumes ok: "vec_ok base c (v, s)" and "length c < max_size"
  shows "\<exists>v' s'. emplace_back a b v s = Inr (v', s') \<and> vec_ok base (c @ [MyStruct a b]) (v', s')"
proof -
  from make_room_ok [OF assms] obtain v1 s1 where
    m: "make_room v s = Inr (v1, s1)" "vec_ok base c (v1, s1)" "vsize v1 < capacity v1"
    by auto
  from construct_end_ok [OF m(2,3), of a b] m(1) show ?thesis
    by (auto simp: emplace_back_def)
qed

lemma push_back_full:
  assumes ok: "vec_ok base c (v, s)" and "max_size \<le> length c"
  shows "push_back obj v s = Inl LengthError"
  by (simp add: push_back_def make_room_full [OF assms])

lemma vec_ok_default: "vec_ok (length (blocks s)) [] (vector_default, s)"
  by (simp add: vec_ok_def vector_default_def)

lemma vec_ok_trace: "vec_ok base c (v, s) \<Longrightarrow> vec_ok base c (v, materialize obj s)"
  by (simp add: materialize_def vec_ok_emit)

lemma reserve_ok:
  assumes "n \<le> max_size"
  shows "\<exists>v s'. reserve n vector_default s = Inr (v, s') \<and> vec_ok (length (blocks s)) [] (v, s')"
proof (cases "n = 0")
  case True
  then show ?thesis
    using vec_ok_default [of s] by (simp add: reserve_def vector_default_def)
next
  case False
  then have "0 < n" by simp
  from reallocate_ok [OF vec_ok_default _ this assms, of s] assms False show ?thesis
    by (auto simp: reserve_def vector_default_def)
qed

lemma reserve_fails: "max_size < n \<Longrightarrow> reserve n v s = Inl LengthError"
  by (simp add: reserve_def)

lemma those_Some: "those (map Some c) = Some c"
  by (induction c) simp_all

lemma read_vector_ok: "vec_ok base c (v, s) \<Longrightarrow> read_vector v s = Some c"
  by (cases "data v"; cases "blocks s ! the (data v)")
    (auto simp: vec_ok_def read_vector_def read_array_def those_Some)

lemma vector_dtor_ok:
  assumes "vec_ok base c (v, s)"
  shows "\<exists>s'. vector_dtor v (DoNotOptimize_vec v s) = Inr s'
         \<and> length (blocks s') = length (blocks s)
         \<and> trace s' = trace s @ Observe (Some c) # (case data v of None \<Rightarrow> [] | Some p \<Rightarrow> [Dealloc p])"
  using assms read_vector_ok [OF assms]
  by (cases "data v"; cases "blocks s ! the (data v)")
    (auto simp: vec_ok_def vector_dtor_def deallocate_def release_def DoNotOptimize_vec_def emit_def)

subsection \<open>The vector variants\<close>

lemma vec_loop_ok:
  assumes init: "vec_ok base [] t0"
    and le: "unat N \<le> max_size"
    and step: "\<And>k v s. k < unat N \<Longrightarrow> vec_ok base (map element [0..<k]) (v, s) \<Longrightarrow>
        \<exists>v' s'. f (of_nat k) (v, s) = Inr (v', s') \<and> vec_ok base (map element [0..<Suc k]) (v', s')"
  shows "\<exists>v s'. for_loop 0 N f t0 = Inr (v, s') \<and> vec_ok base (map element [0..<unat N]) (v, s')"
proof -
  have "\<exists>t. for_loop 0 N f t0 = Inr t \<and> vec_ok base (map element [0..<unat N]) t"
  proof (rule for_loop_invariant [where I = "\<lambda>k. vec_ok base (map element [0..<k])"])
    show "vec_ok base (map element [0..<unat (0::size_t)]) t0"
      using init by simp
    show "(0::size_t) \<le> N" by simp
    fix k t assume "k < unat N" "vec_ok base (map element [0..<k]) t"
    then show "\<exists>t'. f (of_nat k) t = Inr t' \<and> vec_ok base (map element [0..<Suc k]) t'"
      using step [of k "fst t" "snd t"] by auto
  qed
  then show ?thesis by auto
qed

lemma BM_EmplaceBack_build_ok:
  assumes "unat N \<le> max_size"
  shows "\<exists>v s'. BM_EmplaceBack_build N s = Inr (v, s')
           \<and> vec_ok (length (blocks s)) (map element [0..<unat N]) (v, s')"
proof -
  from reserve_ok [OF assms, of s] obtain v0 s0 where
    r: "reserve (unat N) vector_default s = Inr (v0, s0)" "vec_ok (length (blocks s)) [] (v0, s0)"
    by auto
  have "\<exists>v s'. for_loop 0 N (\<lambda>i (vec, s). emplace_back (static_cast_int i) (static_cast_int i) vec s) (v0, s0)
          = Inr (v, s') \<and> vec_ok (length (blocks s)) (map element [0..<unat N]) (v, s')"
  proof (rule vec_loop_ok [OF r(2) assms])
    fix k v t assume k: "k < unat N" and ok: "vec_ok (length (blocks s)) (map element [0..<k]) (v, t)"
    from k assms have "length (map element [0..<k]) < max_size" by simp
    from emplace_back_ok [OF ok this, of "static_cast_int (of_nat k)" "static_cast_int (of_nat k)"]
    show "\<exists>v' s'. (case (v, t) of (vec, s) \<Rightarrow>
              emplace_back (static_cast_int (of_nat k)) (static_cast_int (of_nat k)) vec s) = Inr (v', s')
            \<and> vec_ok (length (blocks s)) (map element [0..<Suc k]) (v', s')"
      using k by (simp add: element_of_index)
  qed
  with r(1) show ?thesis
    by (simp add: BM_EmplaceBack_build_def)
qed

lemma BM_EmplaceBack_build_fails:
  "max_size < unat N \<Longrightarrow> BM_EmplaceBack_build N s = Inl LengthError"
  by (simp add: BM_EmplaceBack_build_def reserve_fails)

lemma BM_PushBack_build_ok:
  assumes "unat N \<le> max_size"
  shows "\<exists>v s'. BM_PushBack_build N s = Inr (v, s')
           \<and> vec_ok (length (blocks s)) (map element [0..<unat N]) (v, s')"
proof -
  from reserve_ok [OF assms, of s] obtain v0 s0 where
    r: "reserve (unat N) vector_default s = Inr (v0, s0)" "vec_ok (length (blocks s)) [] (v0, s0)"
    by auto
  have "\<exists>v s'. for_loop 0 N (\<lambda>i (vec, s). let obj = MyStruct (static_cast_int i) (static_cast_int i)
                        in push_back obj vec (materialize obj s)) (v0, s0)
          = Inr (v, s') \<and> vec_ok (length (blocks s)) (map element [0..<unat N]) (v, s')"
  proof (rule vec_loop_ok [OF r(2) assms])
    fix k v t assume k: "k < unat N" and ok: "vec_ok (length (blocks s)) (map element [0..<k]) (v, t)"
    from k assms have "length (map element [0..<k]) < max_size" by simp
    from push_back_ok [OF vec_ok_trace [OF ok] this, of "element k" "element k"]
    show "\<exists>v' s'. (case (v, t) of (vec, s) \<Rightarrow>
              let obj = MyStruct (static_cast_int (of_nat k)) (static_cast_int (of_nat k))
              in push_back obj vec (materialize obj s)) = Inr (v', s')
            \<and> vec_ok (length (blocks s)) (map element [0..<Suc k]) (v', s')"
      using k by (simp add: element_of_index Let_def)
  qed
  with r(1) show ?thesis
    by (simp add: BM_PushBack_build_def)
qed

lemma BM_PushBack_build_fails:
  "max_size < unat N \<Longrightarrow> BM_PushBack_build N s = Inl LengthError"
  by (simp add: BM_PushBack_build_def reserve_fails)

lemma allocate_ok:
  assumes "n \<le> max_size"
  shows "\<exists>d s1. allocate n s = (d, s1)
     \<and> vec_ok (length (blocks s)) [] (\<lparr>data = d, vsize = 0, capacity = n\<rparr>, s1)"
proof (cases "n = 0")
  case True
  then show ?thesis by (simp add: allocate_def vec_ok_def)
next
  case False
  then have "0 < n" by simp
  from allocate_pos [OF this assms, of s] \<open>0 < n\<close> assms show ?thesis
    by (simp add: vec_ok_def)
qed

lemma BM_FromRange_build_ok:
  assumes "unat N \<le> max_size"
  shows "\<exists>v s'. BM_FromRange_build N s = Inr (v, s')
           \<and> vec_ok (length (blocks s)) (map element [0..<unat N]) (v, s')"
proof -
  from allocate_ok [OF assms, of s] obtain d s1 where
    a: "allocate (unat N) s = (d, s1)"
       "vec_ok (length (blocks s)) [] (\<lparr>data = d, vsize = 0, capacity = unat N\<rparr>, s1)"
    by auto
  let ?I = "\<lambda>k t. vec_ok (length (blocks s)) (map element [0..<k]) t \<and> capacity (fst t) = unat N"
  let ?f = "\<lambda>it (v, s). let tmp = MyStruct (static_cast_int it) (static_cast_int it)
                        in copy_end tmp v (materialize tmp s)"
  have "\<exists>t. for_loop 0 N ?f (\<lparr>data = d, vsize = 0, capacity = unat N\<rparr>, s1) = Inr t \<and> ?I (unat N) t"
  proof (rule for_loop_invariant [where I = ?I])
    show "?I (unat (0::size_t)) (\<lparr>data = d, vsize = 0, capacity = unat N\<rparr>, s1)"
      using a(2) by simp
    show "(0::size_t) \<le> N" by simp
    fix k t assume k: "k < unat N" and I: "?I k t"
    obtain v u where t: "t = (v, u)" by (cases t)
    from I t have ok: "vec_ok (length (blocks s)) (map element [0..<k]) (v, u)"
      and cap: "capacity v = unat N" by simp_all
    from ok have "vsize v = k" by (simp add: vec_ok_def)
    with k cap have room: "vsize v < capacity v" by simp
    from copy_end_ok [OF vec_ok_trace [OF ok] room, of "element k" "element k"] cap
    show "\<exists>t'. ?f (of_nat k) t = Inr t' \<and> ?I (Suc k) t'"
      using k by (auto simp: t element_of_index Let_def)
  qed
  then obtain v s' where "for_loop 0 N ?f (\<lparr>data = d, vsize = 0, capacity = unat N\<rparr>, s1) = Inr (v, s')"
    "vec_ok (length (blocks s)) (map element [0..<unat N]) (v, s')"
    by auto
  with a(1) assms show ?thesis
    by (simp add: BM_FromRange_build_def vector_from_range_def iter_loop_for_loop)
qed

lemma BM_FromRange_build_fails:
  "max_size < unat N \<Longrightarrow> BM_FromRange_build N s = Inl LengthError"
  by (simp add: BM_FromRange_build_def vector_from_range_def)

lemma BM_FromRangeIterators_build_ok:
  assumes "unat N \<le> max_size"
  shows "\<exists>v s'. BM_FromRangeIterators_build N s = Inr (v, s')
           \<and> vec_ok (length (blocks s)) (map element [0..<unat N]) (v, s')"
proof -
  have "\<exists>v s'. for_loop 0 N (\<lambda>it (v, s). let tmp = MyStruct (static_cast_int it) (static_cast_int it)
                        in push_back tmp v (materialize tmp s)) (vector_default, s)
          = Inr (v, s') \<and> vec_ok (length (blocks s)) (map element [0..<unat N]) (v, s')"
  proof (rule vec_loop_ok [OF vec_ok_default assms])
    fix k v t assume k: "k < unat N" and ok: "vec_ok (length (blocks s)) (map element [0..<k]) (v, t)"
    from k assms have "length (map element [0..<k]) < max_size" by simp
    from push_back_ok [OF vec_ok_trace [OF ok] this, of "element k" "element k"]
    show "\<exists>v' s'. (case (v, t) of (vec, s) \<Rightarrow>
              let tmp = MyStruct (static_cast_int (of_nat k)) (static_cast_int (of_nat k))
              in push_back tmp vec (materialize tmp s)) = Inr (v', s')
            \<and> vec_ok (length (blocks s)) (map element [0..<Suc k]) (v', s')"
      using k by (simp add: element_of_index Let_def)
  qed
  then show ?thesis
    by (simp add: BM_FromRangeIterators_build_def vector_from_iterators_def iter_loop_for_loop Let_def)
qed

lemma BM_FromRangeIterators_build_fails:
  assumes "max_size < unat N"
  shows "BM_FromRangeIterators_build N s = Inl LengthError"
proof -
  let ?f = "\<lambda>it (v, s). let tmp = MyStruct (static_cast_int it) (static_cast_int it)
                        in push_back tmp v (materialize tmp s)"
  let ?I = "\<lambda>k. vec_ok (length (blocks s)) (map element [0..<k])"
  have "for_loop 0 N ?f (vector_default, s) = Inl LengthError"
  proof (rule for_loop_fails [where K = max_size and I = ?I])
    show "?I (unat (0::size_t)) (vector_default, s)"
      using vec_ok_default [of s] by simp
    show "unat (0::size_t) \<le> max_size" by simp
    show "max_size < unat N" by (rule assms)
  next
    fix k t assume k: "k < max_size" and I: "?I k t"
    obtain v u where t: "t = (v, u)" by (cases t)
    from k have len: "length (map element [0..<k]) < max_size" by simp
    from k assms have kN: "k < unat N" by simp
    from push_back_ok [OF vec_ok_trace [OF I [unfolded t]] len, of "element k" "element k"]
    show "\<exists>t'. ?f (of_nat k) t = Inr t' \<and> ?I (Suc k) t'"
      using kN by (auto simp: t element_of_index Let_def)
  next
    fix t assume I: "?I max_size t"
    obtain v u where t: "t = (v, u)" by (cases t)
    have len: "max_size \<le> length (map element [0..<max_size])" by simp
    from push_back_full [OF vec_ok_trace [OF I [unfolded t]] len]
    show "?f (of_nat max_size) t = Inl LengthError"
      by (simp add: t Let_def)
  qed
  then show ?thesis
    by (simp add: BM_FromRangeIterators_build_def vector_from_iterators_def iter_loop_for_loop Let_def)
qed

subsection \<open>All variants\<close>

lemma produced_raw:
  assumes "build v N s = as_ptr (BM_CBaseline_build N s) \<or> build v N s = as_ptr (BM_CBaseline2_build N s)"
  shows "produced v N s = (if unat N < 2 ^ 61 then Some (map element [0..<unat N]) else None)"
  using assms
  by (auto simp: produced_def as_ptr_def BM_CBaseline_build_eq BM_CBaseline2_build_eq read_block_filled)

lemma produced_vec:
  assumes ok: "unat N \<le> max_size \<Longrightarrow> \<exists>v s'. r = Inr (v, s')
           \<and> vec_ok (length (blocks s)) (map element [0..<unat N]) (v, s')"
    and bad: "max_size < unat N \<Longrightarrow> r = Inl LengthError"
    and b: "build v N s = as_vec r"
  shows "produced v N s = (if unat N \<le> max_size then Some (map element [0..<unat N]) else None)"
proof (cases "unat N \<le> max_size")
  case True
  from ok [OF True] obtain w s' where "r = Inr (w, s')"
    "vec_ok (length (blocks s)) (map element [0..<unat N]) (w, s')"
    by auto
  with True b show ?thesis
    by (simp add: produced_def as_vec_def read_vector_ok)
next
  case False
  then have "r = Inl LengthError" using bad by simp
  with False b show ?thesis
    by (simp add: produced_def as_vec_def)
qed

lemma produced_eq:
  "produced v N s = (if in_range v N then Some (map element [0..<unat N]) else None)"
proof (cases v)
  case CBaseline
  then show ?thesis using produced_raw [of v N s] by (simp add: in_range_def is_raw_def)
next
  case CBaseline2
  then show ?thesis using produced_raw [of v N s] by (simp add: in_range_def is_raw_def)
next
  case CBaseline3
  then show ?thesis using produced_raw [of v N s]
    by (simp add: in_range_def is_raw_def BM_CBaseline3_build_eq)
next
  case EmplaceBack
  have "produced v N s = (if unat N \<le> max_size then Some (map element [0..<unat N]) else None)"
    by (rule produced_vec [where r = "BM_EmplaceBack_build N s"])
      (simp_all add: BM_EmplaceBack_build_ok BM_EmplaceBack_build_fails EmplaceBack)
  then show ?thesis
    by (simp add: in_range_def is_raw_def EmplaceBack)
next
  case PushBack
  have "produced v N s = (if unat N \<le> max_size then Some (map element [0..<unat N]) else None)"
    by (rule produced_vec [where r = "BM_PushBack_build N s"])
      (simp_all add: BM_PushBack_build_ok BM_PushBack_build_fails PushBack)
  then show ?thesis
    by (simp add: in_range_def is_raw_def PushBack)
next
  case FromRange
  have "produced v N s = (if unat N \<le> max_size then Some (map element [0..<unat N]) else None)"
    by (rule produced_vec [where r = "BM_FromRange_build N s"])
      (simp_all add: BM_FromRange_build_ok BM_FromRange_build_fails FromRange)
  then show ?thesis
    by (simp add: in_range_def is_raw_def FromRange)
next
  case FromRangeIterators
  have "produced v N s = (if unat N \<le> max_size then Some (map element [0..<unat N]) else None)"
    by (rule produced_vec [where r = "BM_FromRangeIterators_build N s"])
      (simp_all add: BM_FromRangeIterators_build_ok BM_FromRangeIterators_build_fails FromRangeIterators)
  then show ?thesis
    by (simp add: in_range_def is_raw_def FromRangeIterators)
qed

text \<open>The loop body of a vector variant, from what its construction work leaves.\<close>

lemma vec_finish:
  assumes "unat N \<le> max_size \<Longrightarrow> \<exists>v t. r = Inr (v, t)
           \<and> vec_ok (length (blocks s)) (map element [0..<unat N]) (v, t)"
    and "unat N \<le> max_size"
  shows "\<exists>v t s'. r = Inr (v, t)
       \<and> vec_ok (length (blocks s)) (map element [0..<unat N]) (v, t)
       \<and> and_then r (\<lambda>(vec, s2). vector_dtor vec (DoNotOptimize_vec vec s2)) = Inr s'
       \<and> length (blocks s') = length (blocks t)
       \<and> trace s' = trace t @ Observe (Some (map element [0..<unat N]))
                      # (case data v of None \<Rightarrow> [] | Some p \<Rightarrow> [Dealloc p])"
proof -
  from assms obtain v t where r: "r = Inr (v, t)"
    "vec_ok (length (blocks s)) (map element [0..<unat N]) (v, t)"
    by blast
  from vector_dtor_ok [OF r(2)] r show ?thesis
    by auto
qed

lemma body_vec:
  assumes "\<not> is_raw v" and "unat N \<le> max_size"
  shows "\<exists>w t s'. build v N s = Inr (Vec w, t)
       \<and> vec_ok (length (blocks s)) (map element [0..<unat N]) (w, t)
       \<and> body v N s = Inr s'
       \<and> length (blocks s') = length (blocks t)
       \<and> trace s' = trace t @ Observe (Some (map element [0..<unat N]))
                      # (case data w of None \<Rightarrow> [] | Some p \<Rightarrow> [Dealloc p])"
proof (cases v)
  case EmplaceBack
  have "unat N \<le> max_size \<Longrightarrow> \<exists>w t. BM_EmplaceBack_build N s = Inr (w, t)
           \<and> vec_ok (length (blocks s)) (map element [0..<unat N]) (w, t)"
    by (rule BM_EmplaceBack_build_ok)
  from vec_finish [OF this assms(2)] show ?thesis
    by (auto simp: EmplaceBack BM_EmplaceBack_body_def as_vec_def)
next
  case PushBack
  have "unat N \<le> max_size \<Longrightarrow> \<exists>w t. BM_PushBack_build N s = Inr (w, t)
           \<and> vec_ok (length (blocks s)) (map element [0..<unat N]) (w, t)"
    by (rule BM_PushBack_build_ok)
  from vec_finish [OF this assms(2)] show ?thesis
    by (auto simp: PushBack BM_PushBack_body_def as_vec_def)
next
  case FromRange
  have "unat N \<le> max_size \<Longrightarrow> \<exists>w t. BM_FromRange_build N s = Inr (w, t)
           \<and> vec_ok (length (blocks s)) (map element [0..<unat N]) (w, t)"
    by (rule BM_FromRange_build_ok)
  from vec_finish [OF this assms(2)] show ?thesis
    by (auto simp: FromRange BM_FromRange_body_def as_vec_def)
next
  case FromRangeIterators
  have "unat N \<le> max_size \<Longrightarrow> \<exists>w t. BM_FromRangeIterators_build N s = Inr (w, t)
           \<and> vec_ok (length (blocks s)) (map element [0..<unat N]) (w, t)"
    by (rule BM_FromRangeIterators_build_ok)
  from vec_finish [OF this assms(2)] show ?thesis
    by (auto simp: FromRangeIterators BM_FromRangeIterators_body_def as_vec_def)
qed (use assms(1) in \<open>simp_all add: is_raw_def\<close>)

lemma body_raw:
  assumes "is_raw v" and "unat N < 2 ^ 61"
  shows "\<exists>t s' evs. build v N s = Inr (Ptr (length (blocks s)), t)
       \<and> blocks t = blocks s @ [Live (map (\<lambda>i. Some (element i)) [0..<unat N])]
       \<and> trace t = trace s @ Alloc (length (blocks s)) (8 * unat N) # evs
       \<and> body v N s = Inr s'
       \<and> blocks s' = blocks s @ [Freed]
       \<and> trace s' = trace s @ Alloc (length (blocks s)) (8 * unat N) # evs
                       @ [Dealloc (length (blocks s)), Observe None]
       \<and> (evs = map (\<lambda>i. Construct (length (blocks s)) i (element i)) [0..<unat N]
          \<or> evs = concat (map (\<lambda>i. [Materialize (element i), Assign (length (blocks s)) i (element i)])
                            [0..<unat N]))"
  using assms
  by (cases v)
    (simp_all add: is_raw_def as_ptr_def BM_CBaseline_build_eq BM_CBaseline2_build_eq
      BM_CBaseline3_build_eq BM_CBaseline_body_eq BM_CBaseline2_body_eq BM_CBaseline3_body_eq)

lemma body_ok: "in_range v N \<Longrightarrow> \<exists>s'. body v N s = Inr s'"
  using body_raw [of v N s] body_vec [of v N s]
  by (cases "is_raw v") (auto simp: in_range_def)

section \<open>The claims\<close>

subsection \<open>Conversion of the index\<close>

lemma narrow_of_nat: "i < 2 ^ 64 \<Longrightarrow> static_cast_int (of_nat i) = (of_nat i :: c_int)"
proof -
  assume "i < 2 ^ 64"
  then have "take_bit 64 i = i"
    by (rule take_bit_nat_eq_self)
  then show ?thesis
    by (simp add: static_cast_int_def unsigned_of_nat)
qed

lemma narrow_small: "i < 2 ^ 31 \<Longrightarrow> sint (static_cast_int (of_nat i)) = int i"
proof -
  assume small: "i < 2 ^ 31"
  then have "i < 2 ^ 64" by simp
  then have "static_cast_int (of_nat i) = (of_nat i :: c_int)"
    by (rule narrow_of_nat)
  moreover have "signed_take_bit 31 (int i) = int i"
    using small by (intro signed_take_bit_int_eq_self) simp_all
  ultimately show ?thesis
    by (simp add: signed_of_nat)
qed

lemma narrow_large: "2 ^ 31 \<le> i \<Longrightarrow> sint (static_cast_int (of_nat i)) \<noteq> int i"
  using sint_lt [of "static_cast_int (of_nat i)"] by auto

lemma x_element: "x (element i) = static_cast_int (of_nat i)"
  by (simp add: element_def MyStruct_def)

lemma y_element: "y (element i) = static_cast_int (of_nat i)"
  by (simp add: element_def MyStruct_def)

lemma max_size_ge: "2 ^ 31 \<le> max_size"
  by (simp add: max_size_val)

lemma in_range_small: "unat N \<le> 2 ^ 31 \<Longrightarrow> in_range v N"
  using max_size_ge by (simp add: in_range_def)

lemma elements5: "map element [0..<5] =
    [\<lparr>x = 0, y = 0\<rparr>, \<lparr>x = 1, y = 1\<rparr>, \<lparr>x = 2, y = 2\<rparr>, \<lparr>x = 3, y = 3\<rparr>, \<lparr>x = 4, y = 4\<rparr>]"
proof -
  have "[0..<5] = [0, 1, 2, 3, 4::nat]"
    by (simp add: upt_conv_Cons)
  then show ?thesis
    by (simp add: element_def MyStruct_def static_cast_int_def)
qed

subsection \<open>The produced collection\<close>

text \<open>
  Claim C1, as the code has it. For each of the seven variants and every count \<open>N\<close>
  up to \<open>2 ^ 31\<close> (the counts 0, 1, 3 and 5 among them), the collection one timed
  iteration produces has exactly \<open>N\<close> elements, and the element at index \<open>i\<close> has both
  fields equal to \<open>i\<close>; at \<open>N = 5\<close> every variant yields the sequence
  (0,0), (1,1), (2,2), (3,3), (4,4). The fields are \<open>int\<close>: beyond \<open>2 ^ 31\<close> elements
  the statement does not hold.
\<close>

theorem collection_for_small_counts:
  assumes "unat N \<le> 2 ^ 31"
  shows "(\<exists>c. produced v N s = Some c \<and> length c = unat N
            \<and> (\<forall>i<unat N. sint (x (c ! i)) = int i \<and> sint (y (c ! i)) = int i))
       \<and> produced v 5 s =
           Some [\<lparr>x = 0, y = 0\<rparr>, \<lparr>x = 1, y = 1\<rparr>, \<lparr>x = 2, y = 2\<rparr>, \<lparr>x = 3, y = 3\<rparr>, \<lparr>x = 4, y = 4\<rparr>]"
proof -
  have p: "produced v N s = Some (map element [0..<unat N])"
    using in_range_small [OF assms] by (simp add: produced_eq)
  have fields: "sint (x (map element [0..<unat N] ! i)) = int i
        \<and> sint (y (map element [0..<unat N] ! i)) = int i" if "i < unat N" for i
  proof -
    from that assms have "i < 2 ^ 31" by simp
    with that show ?thesis
      by (simp add: x_element y_element narrow_small)
  qed
  have "in_range v 5"
    by (rule in_range_small) simp
  then have five: "produced v 5 s = Some (map element [0..<5])"
    by (simp add: produced_eq)
  from p fields five show ?thesis
    by (simp add: elements5)
qed

theorem collection_for_small_counts_witness:
  "unat (3::size_t) \<le> 2 ^ 31
   \<and> (\<exists>c. produced PushBack 3 empty_mem = Some c \<and> length c = unat (3::size_t)
          \<and> (\<forall>i<unat (3::size_t). sint (x (c ! i)) = int i \<and> sint (y (c ! i)) = int i))
   \<and> produced PushBack 5 empty_mem =
           Some [\<lparr>x = 0, y = 0\<rparr>, \<lparr>x = 1, y = 1\<rparr>, \<lparr>x = 2, y = 2\<rparr>, \<lparr>x = 3, y = 3\<rparr>, \<lparr>x = 4, y = 4\<rparr>]"
  using collection_for_small_counts [of 3 PushBack empty_mem] by simp

text \<open>
  With \<open>2 ^ 31 + 1\<close> elements the raw-construct baseline produces a collection of that
  length whose element at index \<open>2 ^ 31\<close> has both fields equal to \<open>- 2 ^ 31\<close>.
\<close>

theorem collection_beyond_int_range:
  "map_option (\<lambda>c. (length c, sint (x (c ! 2147483648)), sint (y (c ! 2147483648))))
     (produced CBaseline 2147483649 empty_mem)
   = Some (2147483649, - 2147483648, - 2147483648)"
proof -
  have "in_range CBaseline 2147483649"
    by (simp add: in_range_def is_raw_def)
  then have "produced CBaseline 2147483649 empty_mem = Some (map element [0..<2147483649])"
    by (simp add: produced_eq)
  moreover have "sint (static_cast_int 2147483648) = - 2147483648"
    by (simp add: static_cast_int_def)
  ultimately show ?thesis
    by (simp add: x_element y_element del: upt_Suc)
qed

subsection \<open>Raw buffers: construction and release\<close>

lemma count_construct:
  "length (filter (is_write p i) (map (\<lambda>j. Construct p j (element j)) [0..<n]))
     = (if i < n then 1 else 0)"
  by (induction n) auto

lemma count_assign:
  "length (filter (is_write p i)
      (concat (map (\<lambda>j. [Materialize (element j), Assign p j (element j)]) [0..<n])))
     = (if i < n then 1 else 0)"
  by (induction n) auto

lemma takeWhile_until:
  assumes "\<And>e. e \<in> set evs \<Longrightarrow> e \<noteq> d"
  shows "takeWhile (\<lambda>e. e \<noteq> d) (evs @ d # rest) = evs"
  using assms by (induction evs) auto

lemma no_dealloc_construct:
  "e \<in> set (Alloc p n # map (\<lambda>j. Construct p j (element j)) [0..<k]) \<Longrightarrow> e \<noteq> Dealloc p"
  by auto

lemma no_dealloc_assign:
  "e \<in> set (Alloc p n # concat (map (\<lambda>j. [Materialize (element j), Assign p j (element j)]) [0..<k]))
     \<Longrightarrow> e \<noteq> Dealloc p"
  by auto

lemma live_blocks_freed:
  assumes "blocks s' = blocks s @ [Freed]"
  shows "live_blocks s' = live_blocks s"
proof -
  have "filter (\<lambda>p. (blocks s @ [Freed]) ! p \<noteq> Freed) [0..<length (blocks s)]
      = filter (\<lambda>p. blocks s ! p \<noteq> Freed) [0..<length (blocks s)]"
    by (rule filter_cong) (simp_all add: nth_append)
  then show ?thesis
    by (simp add: live_blocks_def assms)
qed

lemma new_events_append: "trace s' = trace s @ evs \<Longrightarrow> new_events s s' = evs"
  by (simp add: new_events_def)

lemma raw_counts:
  assumes "evs = map (\<lambda>i. Construct p i (element i)) [0..<n]
          \<or> evs = concat (map (\<lambda>i. [Materialize (element i), Assign p i (element i)]) [0..<n])"
  shows "writes_before_release p i (Alloc p m # evs @ [Dealloc p, Observe None]) = (if i < n then 1 else 0)"
    and "length (filter (is_write p i) (Alloc p m # evs @ [Dealloc p, Observe None])) = (if i < n then 1 else 0)"
proof -
  have tw: "takeWhile (\<lambda>e. e \<noteq> Dealloc p) ((Alloc p m # evs) @ Dealloc p # [Observe None]) = Alloc p m # evs"
    using assms by (intro takeWhile_until) auto
  from assms show "writes_before_release p i (Alloc p m # evs @ [Dealloc p, Observe None]) = (if i < n then 1 else 0)"
    using tw count_construct [of p i n] count_assign [of p i n]
    by (auto simp: writes_before_release_def)
  from assms show "length (filter (is_write p i) (Alloc p m # evs @ [Dealloc p, Observe None])) = (if i < n then 1 else 0)"
    using count_construct [of p i n] count_assign [of p i n] by auto
qed

lemma BM_CBaseline_build_on_eq:
  "BM_CBaseline_build_on grants N s =
     (if unat (sizeof_MyStruct * N) \<le> PTRDIFF_MAX \<and> grants s (unat (sizeof_MyStruct * N))
      then BM_CBaseline_build N s else Inl BadAlloc)"
  by (simp add: BM_CBaseline_build_on_def BM_CBaseline_build_def new_bytes_on_def and_then_def
      split: prod.splits)

lemma BM_CBaseline2_build_on_eq:
  "BM_CBaseline2_build_on grants N s =
     (if unat (sizeof_MyStruct * N) \<le> PTRDIFF_MAX \<and> grants s (unat (sizeof_MyStruct * N))
      then BM_CBaseline2_build N s else Inl BadAlloc)"
  by (simp add: BM_CBaseline2_build_on_def BM_CBaseline2_build_def new_bytes_on_def and_then_def
      split: prod.splits)

lemma BM_CBaseline3_build_on_eq:
  "BM_CBaseline3_build_on grants N s =
     (if unat (sizeof_MyStruct * N) \<le> PTRDIFF_MAX \<and> grants s (unat (sizeof_MyStruct * N))
      then BM_CBaseline3_build N s else Inl BadAlloc)"
  by (simp add: BM_CBaseline3_build_on_def BM_CBaseline3_build_def new_bytes_on_def and_then_def
      split: prod.splits)

lemma BM_CBaseline_body_on_eq:
  "BM_CBaseline_body_on grants N s =
     (if unat (sizeof_MyStruct * N) \<le> PTRDIFF_MAX \<and> grants s (unat (sizeof_MyStruct * N))
      then BM_CBaseline_body N s else Inl BadAlloc)"
  by (simp add: BM_CBaseline_body_on_def BM_CBaseline_body_def BM_CBaseline_build_on_eq and_then_def)

lemma BM_CBaseline2_body_on_eq:
  "BM_CBaseline2_body_on grants N s =
     (if unat (sizeof_MyStruct * N) \<le> PTRDIFF_MAX \<and> grants s (unat (sizeof_MyStruct * N))
      then BM_CBaseline2_body N s else Inl BadAlloc)"
  by (simp add: BM_CBaseline2_body_on_def BM_CBaseline2_body_def BM_CBaseline2_build_on_eq and_then_def)

lemma BM_CBaseline3_body_on_eq:
  "BM_CBaseline3_body_on grants N s =
     (if unat (sizeof_MyStruct * N) \<le> PTRDIFF_MAX \<and> grants s (unat (sizeof_MyStruct * N))
      then BM_CBaseline3_body N s else Inl BadAlloc)"
  by (simp add: BM_CBaseline3_body_on_def BM_CBaseline3_body_def BM_CBaseline3_build_on_eq and_then_def)

lemma raw_on:
  assumes "(bld, bdy) \<in> set (raw_variants_on grants)" and "unat N < 2 ^ 61"
  shows "if 8 * unat N \<le> PTRDIFF_MAX \<and> grants s (8 * unat N)
         then \<exists>evs. bld N s = Inr (length (blocks s),
                        \<lparr>blocks = blocks s @ [Live (map (\<lambda>i. Some (element i)) [0..<unat N])],
                         trace = trace s @ Alloc (length (blocks s)) (8 * unat N) # evs\<rparr>)
                \<and> bdy N s = Inr \<lparr>blocks = blocks s @ [Freed],
                         trace = trace s @ Alloc (length (blocks s)) (8 * unat N) # evs
                           @ [Dealloc (length (blocks s)), Observe None]\<rparr>
                \<and> (evs = map (\<lambda>i. Construct (length (blocks s)) i (element i)) [0..<unat N]
                   \<or> evs = concat (map (\<lambda>i. [Materialize (element i), Assign (length (blocks s)) i (element i)])
                            [0..<unat N]))
         else bld N s = Inl BadAlloc \<and> bdy N s = Inl BadAlloc
                \<and> new_bytes_on grants (sizeof_MyStruct * N) s = Inl BadAlloc"
  using assms
  by (auto simp: raw_variants_on_def BM_CBaseline_build_on_eq BM_CBaseline2_build_on_eq
      BM_CBaseline3_build_on_eq BM_CBaseline_body_on_eq BM_CBaseline2_body_on_eq
      BM_CBaseline3_body_on_eq unat_bytes new_bytes_on_def
      BM_CBaseline_build_eq BM_CBaseline2_build_eq
      BM_CBaseline3_build_eq BM_CBaseline_body_eq BM_CBaseline2_body_eq BM_CBaseline3_body_eq)

lemma repeat_or_refused:
  assumes "I s"
    and "\<And>t. I t \<Longrightarrow> (\<exists>t'. g t = Inr t' \<and> I t') \<or> (g t = Inl BadAlloc \<and> R t)"
  shows "case repeat k g s of
           Inr s' \<Rightarrow> I s'
         | Inl e \<Rightarrow> e = BadAlloc \<and> (\<exists>j<k. \<exists>t. repeat j g s = Inr t \<and> I t \<and> R t)"
  using assms(1)
proof (induction k arbitrary: s)
  case 0
  then show ?case by simp
next
  case (Suc k)
  from assms(2) [OF Suc.prems] show ?case
  proof
    assume "\<exists>t'. g s = Inr t' \<and> I t'"
    then obtain t' where t': "g s = Inr t'" "I t'" by auto
    show ?thesis
    proof (cases "repeat k g t'")
      case (Inr s')
      with Suc.IH [OF t'(2)] t'(1) show ?thesis by simp
    next
      case (Inl e)
      with Suc.IH [OF t'(2)] obtain j t where
        j: "e = BadAlloc" "j < k" "repeat j g t' = Inr t" "I t" "R t"
        by auto
      then have "Suc j < Suc k \<and> (\<exists>u. repeat (Suc j) g s = Inr u \<and> I u \<and> R u)"
        using t'(1) by simp
      then have "\<exists>j<Suc k. \<exists>u. repeat j g s = Inr u \<and> I u \<and> R u"
        by (rule exI)
      with j(1) Inl t'(1) show ?thesis
        by simp
    qed
  next
    assume r: "g s = Inl BadAlloc \<and> R s"
    then have "repeat 0 g s = Inr s" by simp
    with r Suc.prems show ?thesis
      by (auto intro!: exI [of _ 0])
  qed
qed


lemma raw_once:
  assumes "(bld, bdy) \<in> set (raw_variants_on grants)" and "unat N < 2 ^ 61"
    and "8 * unat N \<le> PTRDIFF_MAX \<and> grants s (8 * unat N)"
  shows "\<exists>t s'. bld N s = Inr (length (blocks s), t)
       \<and> read_block (length (blocks s)) t = Some (map element [0..<unat N])
       \<and> bdy N s = Inr s'
       \<and> blocks s' = blocks s @ [Freed]
       \<and> live_blocks s' = live_blocks s
       \<and> (\<forall>i. writes_before_release (length (blocks s)) i (new_events s s') = (if i < unat N then 1 else 0))
       \<and> (\<forall>i. length (filter (is_write (length (blocks s)) i) (new_events s s')) = (if i < unat N then 1 else 0))"
proof -
  let ?p = "length (blocks s)"
  from raw_on [OF assms(1,2), of s] assms(3) obtain evs where
    b: "bld N s = Inr (?p, \<lparr>blocks = blocks s @ [Live (map (\<lambda>i. Some (element i)) [0..<unat N])],
                         trace = trace s @ Alloc ?p (8 * unat N) # evs\<rparr>)"
       "bdy N s = Inr \<lparr>blocks = blocks s @ [Freed],
                         trace = trace s @ Alloc ?p (8 * unat N) # evs @ [Dealloc ?p, Observe None]\<rparr>"
       "evs = map (\<lambda>i. Construct ?p i (element i)) [0..<unat N]
          \<or> evs = concat (map (\<lambda>i. [Materialize (element i), Assign ?p i (element i)]) [0..<unat N])"
    by auto
  let ?t = "\<lparr>blocks = blocks s @ [Live (map (\<lambda>i. Some (element i)) [0..<unat N])],
                         trace = trace s @ Alloc ?p (8 * unat N) # evs\<rparr>"
  let ?s' = "\<lparr>blocks = blocks s @ [Freed],
                         trace = trace s @ Alloc ?p (8 * unat N) # evs @ [Dealloc ?p, Observe None]\<rparr>"
  have ne: "new_events s ?s' = Alloc ?p (8 * unat N) # evs @ [Dealloc ?p, Observe None]"
    by (rule new_events_append) simp
  have lb: "live_blocks ?s' = live_blocks s"
    by (rule live_blocks_freed) simp
  have rd: "read_block ?p ?t = Some (map element [0..<unat N])"
    by (rule read_block_filled)
  show ?thesis
    using b(1,2) rd lb raw_counts [OF b(3)] by (simp add: ne)
qed

text \<open>
  Claim C2, as the code has it. For each raw-buffer variant (\<open>BM_CBaseline\<close>,
  \<open>BM_CBaseline2\<close>, \<open>BM_CBaseline3\<close>) and every count \<open>N\<close> below \<open>2 ^ 61\<close>, on a
  free store that may refuse any request, the loop body has two ways out. When the
  new-expression is refused, the exception leaves the body there, in the state the
  body started from: no block has been allocated, and there is none to release. When
  it is granted, the body runs to its end, and the block it allocated is released:
  the live blocks are the ones from before. Before the release each of the \<open>N\<close>
  slots is constructed or written exactly once, and never afterwards; and when the
  construction work is done the block holds the \<open>N\<close> objects, none of its slots
  being left without one. Over any number of repetitions the live blocks stay the
  ones from before, also in the state in which a later repetition is refused. From
  \<open>N = 2 ^ 61\<close> on the byte count \<open>sizeof(MyStruct) * N\<close> wraps, and the statement
  does not hold.
\<close>

theorem raw_block_constructed_once_and_released:
  assumes "(bld, bdy) \<in> set (raw_variants_on grants)" and "unat N < 2 ^ 61"
  shows "(if 8 * unat N \<le> PTRDIFF_MAX \<and> grants s (8 * unat N)
          then \<exists>t s'. bld N s = Inr (length (blocks s), t)
                 \<and> read_block (length (blocks s)) t
                     = Some (map (\<lambda>i. MyStruct (static_cast_int (of_nat i)) (static_cast_int (of_nat i)))
                               [0..<unat N])
                 \<and> bdy N s = Inr s'
                 \<and> blocks s' = blocks s @ [Freed]
                 \<and> live_blocks s' = live_blocks s
                 \<and> (\<forall>i<unat N. writes_before_release (length (blocks s)) i (new_events s s') = 1)
                 \<and> (\<forall>i. length (filter (is_write (length (blocks s)) i) (new_events s s'))
                          = (if i < unat N then 1 else 0))
          else bld N s = Inl BadAlloc \<and> bdy N s = Inl BadAlloc
                 \<and> new_bytes_on grants (sizeof_MyStruct * N) s = Inl BadAlloc)
       \<and> (case repeat k (bdy N) s of
             Inr s'' \<Rightarrow> live_blocks s'' = live_blocks s
           | Inl e \<Rightarrow> e = BadAlloc
               \<and> (\<exists>j<k. \<exists>t. repeat j (bdy N) s = Inr t \<and> live_blocks t = live_blocks s
                      \<and> new_bytes_on grants (sizeof_MyStruct * N) t = Inl BadAlloc))"
proof -
  have one: "if 8 * unat N \<le> PTRDIFF_MAX \<and> grants s (8 * unat N)
          then \<exists>t s'. bld N s = Inr (length (blocks s), t)
                 \<and> read_block (length (blocks s)) t
                     = Some (map (\<lambda>i. MyStruct (static_cast_int (of_nat i)) (static_cast_int (of_nat i)))
                               [0..<unat N])
                 \<and> bdy N s = Inr s'
                 \<and> blocks s' = blocks s @ [Freed]
                 \<and> live_blocks s' = live_blocks s
                 \<and> (\<forall>i<unat N. writes_before_release (length (blocks s)) i (new_events s s') = 1)
                 \<and> (\<forall>i. length (filter (is_write (length (blocks s)) i) (new_events s s'))
                          = (if i < unat N then 1 else 0))
          else bld N s = Inl BadAlloc \<and> bdy N s = Inl BadAlloc
                 \<and> new_bytes_on grants (sizeof_MyStruct * N) s = Inl BadAlloc"
  proof (cases "8 * unat N \<le> PTRDIFF_MAX \<and> grants s (8 * unat N)")
    case True
    from raw_once [OF assms True] obtain t s' where
      r: "bld N s = Inr (length (blocks s), t)"
         "read_block (length (blocks s)) t = Some (map element [0..<unat N])"
         "bdy N s = Inr s'" "blocks s' = blocks s @ [Freed]" "live_blocks s' = live_blocks s"
         "\<And>i. writes_before_release (length (blocks s)) i (new_events s s') = (if i < unat N then 1 else 0)"
         "\<And>i. length (filter (is_write (length (blocks s)) i) (new_events s s')) = (if i < unat N then 1 else 0)"
      by blast
    have "\<exists>t s'. bld N s = Inr (length (blocks s), t)
                 \<and> read_block (length (blocks s)) t
                     = Some (map (\<lambda>i. MyStruct (static_cast_int (of_nat i)) (static_cast_int (of_nat i)))
                               [0..<unat N])
                 \<and> bdy N s = Inr s'
                 \<and> blocks s' = blocks s @ [Freed]
                 \<and> live_blocks s' = live_blocks s
                 \<and> (\<forall>i<unat N. writes_before_release (length (blocks s)) i (new_events s s') = 1)
                 \<and> (\<forall>i. length (filter (is_write (length (blocks s)) i) (new_events s s'))
                          = (if i < unat N then 1 else 0))"
      by (rule exI [of _ t], rule exI [of _ s']) (simp add: r element_fun)
    with True show ?thesis by simp
  next
    case False
    with raw_on [OF assms, of s] show ?thesis by simp
  qed
  have rep: "case repeat k (bdy N) s of
             Inr s'' \<Rightarrow> live_blocks s'' = live_blocks s
           | Inl e \<Rightarrow> e = BadAlloc
               \<and> (\<exists>j<k. \<exists>t. repeat j (bdy N) s = Inr t \<and> live_blocks t = live_blocks s
                      \<and> new_bytes_on grants (sizeof_MyStruct * N) t = Inl BadAlloc)"
  proof (rule repeat_or_refused
      [where I = "\<lambda>t. live_blocks t = live_blocks s"
         and R = "\<lambda>t. new_bytes_on grants (sizeof_MyStruct * N) t = Inl BadAlloc"])
    show "live_blocks s = live_blocks s" by simp
    fix t assume t: "live_blocks t = live_blocks s"
    show "(\<exists>t'. bdy N t = Inr t' \<and> live_blocks t' = live_blocks s)
        \<or> (bdy N t = Inl BadAlloc \<and> new_bytes_on grants (sizeof_MyStruct * N) t = Inl BadAlloc)"
    proof (cases "8 * unat N \<le> PTRDIFF_MAX \<and> grants t (8 * unat N)")
      case True
      from raw_once [OF assms True] t show ?thesis by auto
    next
      case False
      with raw_on [OF assms, of t] show ?thesis by simp
    qed
  qed
  from one rep show ?thesis by (rule conjI)
qed

theorem raw_block_constructed_once_and_released_witness:
  "(BM_CBaseline2_build_on (\<lambda>s n. n \<le> 4096), BM_CBaseline2_body_on (\<lambda>s n. n \<le> 4096))
      \<in> set (raw_variants_on (\<lambda>s n. n \<le> 4096))
   \<and> unat (2::size_t) < 2 ^ 61
   \<and> (\<exists>t s'. BM_CBaseline2_build_on (\<lambda>s n. n \<le> 4096) 2 empty_mem = Inr (length (blocks empty_mem), t)
          \<and> read_block (length (blocks empty_mem)) t
               = Some (map (\<lambda>i. MyStruct (static_cast_int (of_nat i)) (static_cast_int (of_nat i)))
                         [0..<unat (2::size_t)])
          \<and> BM_CBaseline2_body_on (\<lambda>s n. n \<le> 4096) 2 empty_mem = Inr s'
          \<and> blocks s' = blocks empty_mem @ [Freed]
          \<and> live_blocks s' = live_blocks empty_mem
          \<and> (\<forall>i<unat (2::size_t).
                 writes_before_release (length (blocks empty_mem)) i (new_events empty_mem s') = 1)
          \<and> (\<forall>i. length (filter (is_write (length (blocks empty_mem)) i) (new_events empty_mem s'))
                   = (if i < unat (2::size_t) then 1 else 0)))
   \<and> (case repeat 3 (BM_CBaseline2_body_on (\<lambda>s n. n \<le> 4096) 2) empty_mem of
         Inr s'' \<Rightarrow> live_blocks s'' = live_blocks empty_mem
       | Inl e \<Rightarrow> e = BadAlloc
           \<and> (\<exists>j<3. \<exists>t. repeat j (BM_CBaseline2_body_on (\<lambda>s n. n \<le> 4096) 2) empty_mem = Inr t
                  \<and> live_blocks t = live_blocks empty_mem
                  \<and> new_bytes_on (\<lambda>s n. n \<le> 4096) (sizeof_MyStruct * 2) t = Inl BadAlloc))"
proof -
  have 1: "(BM_CBaseline2_build_on (\<lambda>s n. n \<le> 4096), BM_CBaseline2_body_on (\<lambda>s n. n \<le> 4096))
      \<in> set (raw_variants_on (\<lambda>s n. n \<le> 4096))"
    by (simp add: raw_variants_on_def)
  have 2: "unat (2::size_t) < 2 ^ 61" by simp
  have 3: "8 * unat (2::size_t) \<le> PTRDIFF_MAX \<and> 8 * unat (2::size_t) \<le> (4096::nat)"
    by (simp add: PTRDIFF_MAX_def)
  from raw_block_constructed_once_and_released [OF 1 2, of empty_mem 3] 1 2 3 show ?thesis
    by (simp only: if_True simp_thms)
qed

text \<open>
  With \<open>N = 2 ^ 61\<close> the byte count wraps to 0: the block has no slot, and the first
  construction is a write outside it, on the store that grants every request and on
  any store that grants this one.
\<close>

theorem raw_block_overflow:
  "body CBaseline 2305843009213693952 empty_mem = Inl OutOfBounds
   \<and> BM_CBaseline_body_on (\<lambda>s n. True) 2305843009213693952 empty_mem = Inl OutOfBounds"
  by (simp add: BM_CBaseline_body_eq BM_CBaseline_body_on_eq sizeof_MyStruct_def)

subsection \<open>The three raw-buffer variants compared\<close>

text \<open>
  Claim C3. \<open>BM_CBaseline3\<close>, which constructs with \<open>std::construct_at\<close>, does what
  \<open>BM_CBaseline\<close> does with placement new: for every \<open>N\<close> and from every state the
  construction work and the whole loop body have the same result, so the two produce
  equal collections. Where the byte count does not wrap, the construction work of
  \<open>BM_CBaseline3\<close> leaves a block of \<open>N\<close> slots, slot \<open>i\<close> holding the object
  \<open>MyStruct(i, i)\<close>, and that is the collection produced; the events after the
  allocation are one construction in place per slot, in the order of the indices, and
  no object is materialised outside the block. Where the byte count wraps, both
  variants write outside their block and produce nothing.
\<close>

theorem construct_at_variant_equals_baseline:
  "BM_CBaseline3_build N s = BM_CBaseline_build N s
   \<and> BM_CBaseline3_body N s = BM_CBaseline_body N s
   \<and> produced CBaseline3 N s = produced CBaseline N s
   \<and> BM_CBaseline3_build N s =
       (if unat N < 2 ^ 61
        then Inr (length (blocks s),
               \<lparr>blocks = blocks s
                  @ [Live (map (\<lambda>i. Some (MyStruct (static_cast_int (of_nat i)) (static_cast_int (of_nat i))))
                             [0..<unat N])],
                trace = trace s @ Alloc (length (blocks s)) (8 * unat N)
                  # map (\<lambda>i. Construct (length (blocks s)) i
                            (MyStruct (static_cast_int (of_nat i)) (static_cast_int (of_nat i))))
                      [0..<unat N]\<rparr>)
        else Inl OutOfBounds)
   \<and> produced CBaseline3 N s =
       (if unat N < 2 ^ 61
        then Some (map (\<lambda>i. MyStruct (static_cast_int (of_nat i)) (static_cast_int (of_nat i)))
                     [0..<unat N])
        else None)
   \<and> BM_CBaseline3_body N s =
       (if unat N < 2 ^ 61
        then Inr \<lparr>blocks = blocks s @ [Freed],
                 trace = trace s @ Alloc (length (blocks s)) (8 * unat N)
                   # map (\<lambda>i. Construct (length (blocks s)) i
                             (MyStruct (static_cast_int (of_nat i)) (static_cast_int (of_nat i))))
                       [0..<unat N]
                   @ [Dealloc (length (blocks s)), Observe None]\<rparr>
        else Inl OutOfBounds)"
  by (simp add: BM_CBaseline3_build_eq BM_CBaseline3_body_eq BM_CBaseline_body_eq
      BM_CBaseline_build_eq produced_eq in_range_def is_raw_def element_fun)

text \<open>
  Claim C5. \<open>BM_CBaseline2\<close> allocates the block \<open>BM_CBaseline\<close> allocates and leaves
  it with the same contents, so for every \<open>N\<close> the two produce equal collections; but
  for each index it materialises a temporary \<open>MyStruct\<close> and then assigns it to the
  slot, where the baseline constructs in place. Where the byte count does not wrap,
  the construction work leaves a block of \<open>N\<close> slots, slot \<open>i\<close> holding the object
  \<open>MyStruct(i, i)\<close>, and that is the collection produced; where it wraps, both
  variants write outside their block and produce nothing.
\<close>

theorem assignment_variant_equals_baseline:
  "produced CBaseline2 N s = produced CBaseline N s
   \<and> map_sum id (\<lambda>(vec, t). (vec, blocks t)) (BM_CBaseline2_build N s)
       = map_sum id (\<lambda>(vec, t). (vec, blocks t)) (BM_CBaseline_build N s)
   \<and> BM_CBaseline2_build N s =
       (if unat N < 2 ^ 61
        then Inr (length (blocks s),
               \<lparr>blocks = blocks s
                  @ [Live (map (\<lambda>i. Some (MyStruct (static_cast_int (of_nat i)) (static_cast_int (of_nat i))))
                             [0..<unat N])],
                trace = trace s @ Alloc (length (blocks s)) (8 * unat N)
                  # concat (map (\<lambda>i. [Materialize (MyStruct (static_cast_int (of_nat i)) (static_cast_int (of_nat i))),
                                      Assign (length (blocks s)) i
                                        (MyStruct (static_cast_int (of_nat i)) (static_cast_int (of_nat i)))])
                      [0..<unat N])\<rparr>)
        else Inl OutOfBounds)
   \<and> produced CBaseline2 N s =
       (if unat N < 2 ^ 61
        then Some (map (\<lambda>i. MyStruct (static_cast_int (of_nat i)) (static_cast_int (of_nat i)))
                     [0..<unat N])
        else None)
   \<and> BM_CBaseline2_body N s =
       (if unat N < 2 ^ 61
        then Inr \<lparr>blocks = blocks s @ [Freed],
                 trace = trace s @ Alloc (length (blocks s)) (8 * unat N)
                   # concat (map (\<lambda>i. [Materialize (MyStruct (static_cast_int (of_nat i)) (static_cast_int (of_nat i))),
                                       Assign (length (blocks s)) i
                                         (MyStruct (static_cast_int (of_nat i)) (static_cast_int (of_nat i)))])
                       [0..<unat N])
                   @ [Dealloc (length (blocks s)), Observe None]\<rparr>
        else Inl OutOfBounds)"
  by (simp add: BM_CBaseline2_build_eq BM_CBaseline_build_eq BM_CBaseline2_body_eq produced_eq
      in_range_def is_raw_def element_fun)

subsection \<open>The two constructions from a lazy view\<close>

lemma element_events_append [simp]:
  "element_events (xs @ ys) = element_events xs @ element_events ys"
  by (simp add: element_events_def)

lemma element_events_Nil [simp]: "element_events [] = []"
  by (simp add: element_events_def)

lemma element_events_Cons [simp]: "element_events (e # es) = element_event e @ element_events es"
  by (simp add: element_events_def)

lemma quiet_refl: "quiet s s"
  by (simp add: quiet_def)

lemma quiet_trans: "quiet s t \<Longrightarrow> quiet t u \<Longrightarrow> quiet s u"
  by (auto simp: quiet_def)

lemma quiet_allocate: "allocate n s = (d, s1) \<Longrightarrow> quiet s s1"
  by (auto simp: allocate_def new_bytes_def emit_def quiet_def split: if_splits)

lemma quiet_relocate: "relocate a b n s = Inr s' \<Longrightarrow> quiet s s'"
  by (auto simp: relocate_def emit_def quiet_def split: if_splits option.splits block.splits)

lemma quiet_release: "release p s = Inr s' \<Longrightarrow> quiet s s'"
  by (auto simp: release_def emit_def quiet_def split: if_splits)

lemma quiet_deallocate: "deallocate d s = Inr s' \<Longrightarrow> quiet s s'"
  by (auto simp: deallocate_def quiet_refl quiet_release split: option.splits)

lemma and_then_InrE:
  assumes "and_then m f = Inr r"
  obtains a where "m = Inr a" "f a = Inr r"
  using assms by (cases m) simp_all

lemma reallocate_quiet:
  assumes "reallocate n v s = Inr (v', s')"
  shows "quiet s s' \<and> vsize v' = vsize v"
proof -
  obtain d s1 where a: "allocate n s = (d, s1)"
    by (cases "allocate n s")
  from assms a obtain s2 where r: "relocate (data v) d (vsize v) s1 = Inr s2"
    and rest: "and_then (deallocate (data v) s2) (\<lambda>s3. Inr (v\<lparr>data := d, capacity := n\<rparr>, s3)) = Inr (v', s')"
    by (auto simp: reallocate_def elim: and_then_InrE)
  from rest obtain s3 where d: "deallocate (data v) s2 = Inr s3"
    and e: "v' = v\<lparr>data := d, capacity := n\<rparr>" "s' = s3"
    by (auto elim: and_then_InrE)
  from quiet_allocate [OF a] quiet_relocate [OF r] quiet_deallocate [OF d] e show ?thesis
    by (auto intro: quiet_trans)
qed

lemma make_room_quiet:
  assumes "make_room v s = Inr (v', s')"
  shows "quiet s s' \<and> vsize v' = vsize v"
  using assms reallocate_quiet [of "grown_capacity (vsize v)" v s v' s']
  by (auto simp: make_room_def quiet_refl split: if_splits)

lemma copy_end_events:
  assumes "copy_end obj v s = Inr (v', s')"
  shows "vsize v' = Suc (vsize v)
       \<and> (\<exists>evs. trace s' = trace s @ evs \<and> element_events evs = [(Some (vsize v), obj)])"
  using assms
  by (auto simp: copy_end_def copy_construct_def store_def emit_def
      split: option.splits if_splits block.splits elim!: and_then_InrE)

lemma construct_end_events:
  assumes "construct_end a b v s = Inr (v', s')"
  shows "vsize v' = Suc (vsize v)
       \<and> (\<exists>evs. trace s' = trace s @ evs \<and> element_events evs = [(Some (vsize v), MyStruct a b)])"
  using assms
  by (auto simp: construct_end_def construct_at_def placement_new_def store_def emit_def
      split: option.splits if_splits block.splits elim!: and_then_InrE)

lemma push_back_events:
  assumes "push_back obj v s = Inr (v', s')"
  shows "vsize v' = Suc (vsize v)
       \<and> (\<exists>evs. trace s' = trace s @ evs \<and> element_events evs = [(Some (vsize v), obj)])"
proof -
  from assms obtain v1 s1 where m: "make_room v s = Inr (v1, s1)" and c: "copy_end obj v1 s1 = Inr (v', s')"
    by (auto simp: push_back_def elim!: and_then_InrE)
  from make_room_quiet [OF m] copy_end_events [OF c] show ?thesis
    by (auto simp: quiet_def)
qed

lemma emplace_back_events:
  assumes "emplace_back a b v s = Inr (v', s')"
  shows "vsize v' = Suc (vsize v)
       \<and> (\<exists>evs. trace s' = trace s @ evs \<and> element_events evs = [(Some (vsize v), MyStruct a b)])"
proof -
  from assms obtain v1 s1 where m: "make_room v s = Inr (v1, s1)" and c: "construct_end a b v1 s1 = Inr (v', s')"
    by (auto simp: emplace_back_def elim!: and_then_InrE)
  from make_room_quiet [OF m] construct_end_events [OF c] show ?thesis
    by (auto simp: quiet_def)
qed

lemma for_loop_partial:
  assumes "for_loop i N f s = Inr s'" and "I (unat i) s" and "i \<le> N"
    and step: "\<And>k t t'. unat i \<le> k \<Longrightarrow> k < unat N \<Longrightarrow> I k t \<Longrightarrow> f (of_nat k) t = Inr t'
          \<Longrightarrow> I (Suc k) t'"
  shows "I (unat N) s'"
  using assms
proof (induction i N f s rule: for_loop.induct)
  case (1 i N f s)
  show ?case
  proof (cases "i < N")
    case True
    then have lt: "unat i < unat N" by (simp add: word_less_nat_alt)
    have suc: "unat (i + 1) = Suc (unat i)" using True by (rule unat_inc)
    from "1.prems"(1) True obtain t where t: "f i s = Inr t" "for_loop (i + 1) N f t = Inr s'"
      by (subst (asm) for_loop.simps) (auto split: sum.splits)
    have It: "I (Suc (unat i)) t"
      using "1.prems"(4) [OF le_refl lt "1.prems"(2)] t(1) by simp
    show ?thesis
    proof (rule "1.IH" [OF True t(1) t(2)])
      show "I (unat (i + 1)) t" using It suc by simp
      show "i + 1 \<le> N" using True by (rule inc_le_word)
      fix k u u' assume "unat (i + 1) \<le> k" "k < unat N" "I k u" "f (of_nat k) u = Inr u'"
      then show "I (Suc k) u'"
        using "1.prems"(4) [of k u u'] suc by simp
    qed
  next
    case False
    with "1.prems"(3) have "i = N" by simp
    with "1.prems"(1,2) show ?thesis
      by (subst (asm) for_loop.simps) simp
  qed
qed

lemma vec_loop_events:
  assumes run: "for_loop 0 N f (v0, s0) = Inr (v', s')" and v0: "vsize v0 = 0"
    and step: "\<And>k v s v1 s1. k < unat N \<Longrightarrow> vsize v = k \<Longrightarrow> f (of_nat k) (v, s) = Inr (v1, s1)
        \<Longrightarrow> vsize v1 = Suc k \<and> (\<exists>evs. trace s1 = trace s @ evs \<and> element_events evs = g k)"
  shows "\<exists>evs. trace s' = trace s0 @ evs \<and> element_events evs = concat (map g [0..<unat N])"
proof -
  let ?I = "\<lambda>k t. vsize (fst t) = k
      \<and> (\<exists>evs. trace (snd t) = trace s0 @ evs \<and> element_events evs = concat (map g [0..<k]))"
  have "?I (unat N) (v', s')"
  proof (rule for_loop_partial [OF run, where I = ?I])
    show "?I (unat (0::size_t)) (v0, s0)" using v0 by simp
    show "(0::size_t) \<le> N" by simp
    fix k t t' assume k: "k < unat N" and I: "?I k t" and f: "f (of_nat k) t = Inr t'"
    obtain v s where t: "t = (v, s)" by (cases t)
    obtain v1 s1 where t': "t' = (v1, s1)" by (cases t')
    from I t obtain evs where e: "vsize v = k" "trace s = trace s0 @ evs"
        "element_events evs = concat (map g [0..<k])"
      by auto
    from step [OF k e(1) f [unfolded t t']] obtain evs1 where
      "vsize v1 = Suc k" "trace s1 = trace s @ evs1" "element_events evs1 = g k"
      by auto
    with e show "?I (Suc k) t'"
      by (simp add: t')
  qed
  then show ?thesis by simp
qed

lemma materialize_trace: "trace (materialize v s) = trace s @ [Materialize v]"
  by (simp add: materialize_def emit_def)

lemma push_step_events:
  assumes "k < unat (N::size_t)" and "vsize v = k"
    and "(let tmp = MyStruct (static_cast_int (of_nat k)) (static_cast_int (of_nat k))
          in h tmp v (materialize tmp s)) = Inr (v1, s1)"
    and h: "\<And>obj v s v' s'. h obj v s = Inr (v', s') \<Longrightarrow> vsize v' = Suc (vsize v)
       \<and> (\<exists>evs. trace s' = trace s @ evs \<and> element_events evs = [(Some (vsize v), obj)])"
  shows "vsize v1 = Suc k
       \<and> (\<exists>evs. trace s1 = trace s @ evs
              \<and> element_events evs = [(None, element k), (Some k, element k)])"
proof -
  from assms(1,3) have "h (element k) v (materialize (element k) s) = Inr (v1, s1)"
    by (simp add: Let_def element_of_index)
  from h [OF this] assms(2) show ?thesis
    by (auto simp: materialize_trace)
qed

lemma BM_FromRangeIterators_build_events:
  assumes "BM_FromRangeIterators_build N s = Inr (v', s')"
  shows "\<exists>evs. trace s' = trace s @ evs
          \<and> element_events evs = concat (map (\<lambda>i. [(None, element i), (Some i, element i)]) [0..<unat N])"
proof -
  from assms have run: "for_loop 0 N (\<lambda>it (v, s). let tmp = MyStruct (static_cast_int it) (static_cast_int it)
                        in push_back tmp v (materialize tmp s)) (vector_default, s) = Inr (v', s')"
    by (simp add: BM_FromRangeIterators_build_def vector_from_iterators_def iter_loop_for_loop Let_def)
  show ?thesis
  proof (rule vec_loop_events [OF run])
    show "vsize vector_default = 0" by (simp add: vector_default_def)
    fix k v t v1 s1 assume k: "k < unat N" "vsize v = k"
      and f: "(case (v, t) of (v, s) \<Rightarrow> let tmp = MyStruct (static_cast_int (of_nat k)) (static_cast_int (of_nat k))
                        in push_back tmp v (materialize tmp s)) = Inr (v1, s1)"
    from f have "(let tmp = MyStruct (static_cast_int (of_nat k)) (static_cast_int (of_nat k))
          in push_back tmp v (materialize tmp t)) = Inr (v1, s1)"
      by simp
    from push_step_events [where h = push_back, OF k this push_back_events]
    show "vsize v1 = Suc k \<and> (\<exists>evs. trace s1 = trace t @ evs
              \<and> element_events evs = [(None, element k), (Some k, element k)])"
      by simp
  qed
qed

lemma BM_FromRange_build_events:
  assumes "BM_FromRange_build N s = Inr (v', s')"
  shows "\<exists>evs. trace s' = trace s @ evs
          \<and> element_events evs = concat (map (\<lambda>i. [(None, element i), (Some i, element i)]) [0..<unat N])"
proof -
  obtain d s1 where a: "allocate (unat N) s = (d, s1)"
    by (cases "allocate (unat N) s")
  from assms a have run: "for_loop 0 N (\<lambda>it (v, s). let tmp = MyStruct (static_cast_int it) (static_cast_int it)
                        in copy_end tmp v (materialize tmp s))
             (\<lparr>data = d, vsize = 0, capacity = unat N\<rparr>, s1) = Inr (v', s')"
    by (simp add: BM_FromRange_build_def vector_from_range_def iter_loop_for_loop Let_def
        split: if_splits)
  have "\<exists>evs. trace s' = trace s1 @ evs
          \<and> element_events evs = concat (map (\<lambda>i. [(None, element i), (Some i, element i)]) [0..<unat N])"
  proof (rule vec_loop_events [OF run])
    show "vsize \<lparr>data = d, vsize = 0, capacity = unat N\<rparr> = 0" by simp
    fix k v t v1 s2 assume k: "k < unat N" "vsize v = k"
      and f: "(case (v, t) of (v, s) \<Rightarrow> let tmp = MyStruct (static_cast_int (of_nat k)) (static_cast_int (of_nat k))
                        in copy_end tmp v (materialize tmp s)) = Inr (v1, s2)"
    from f have "(let tmp = MyStruct (static_cast_int (of_nat k)) (static_cast_int (of_nat k))
          in copy_end tmp v (materialize tmp t)) = Inr (v1, s2)"
      by simp
    from push_step_events [where h = copy_end, OF k this copy_end_events]
    show "vsize v1 = Suc k \<and> (\<exists>evs. trace s2 = trace t @ evs
              \<and> element_events evs = [(None, element k), (Some k, element k)])"
      by simp
  qed
  with quiet_allocate [OF a] show ?thesis
    by (auto simp: quiet_def)
qed

lemma vector_finish_events:
  assumes "and_then r (\<lambda>(vec, s2). vector_dtor vec (DoNotOptimize_vec vec s2)) = Inr s'"
    and "\<And>v t. r = Inr (v, t) \<Longrightarrow> \<exists>evs. trace t = trace s @ evs \<and> element_events evs = E"
  shows "element_events (new_events s s') = E"
proof -
  from assms(1) obtain v t where r: "r = Inr (v, t)"
    and d: "vector_dtor v (DoNotOptimize_vec v t) = Inr s'"
    by (auto elim!: and_then_InrE)
  from d have "quiet (DoNotOptimize_vec v t) s'"
    by (simp add: vector_dtor_def quiet_deallocate)
  moreover have "quiet t (DoNotOptimize_vec v t)"
    by (simp add: quiet_def DoNotOptimize_vec_def emit_def)
  ultimately have "quiet t s'"
    by (blast intro: quiet_trans)
  with assms(2) [OF r] show ?thesis
    by (auto simp: quiet_def new_events_def)
qed

lemma range_bodies_events:
  assumes "v = FromRange \<or> v = FromRangeIterators" and "body v N s = Inr s'"
  shows "element_events (new_events s s')
       = concat (map (\<lambda>i. [(None, element i), (Some i, element i)]) [0..<unat N])"
  using assms
  by (auto simp: BM_FromRange_body_def BM_FromRangeIterators_body_def
      intro: vector_finish_events BM_FromRange_build_events BM_FromRangeIterators_build_events)

text \<open>
  Claim C4. Handing the view to the constructor (\<open>BM_FromRange\<close>) and handing it the
  view's begin and end iterators (\<open>BM_FromRangeIterators\<close>) produce the same collection
  for every \<open>N\<close>: up to \<open>max_size\<close> elements, the element at index \<open>i\<close> is what
  dereferencing the view's iterator at \<open>i\<close> computes, for \<open>i\<close> from 0 to \<open>N - 1\<close>; beyond
  that neither constructs a vector. Both compute the elements on demand: seen from the
  elements, either run is, for each index in turn, the object computed from the index
  and then that object put into the slot of the index, and nothing else.
\<close>

theorem range_constructors_agree:
  "produced FromRangeIterators N s = produced FromRange N s
   \<and> produced FromRange N s =
       (if unat N \<le> max_size
        then Some (map (\<lambda>i. view_deref
                     (transform (iota 0 N) (\<lambda>j. MyStruct (static_cast_int j) (static_cast_int j)))
                     (of_nat i)) [0..<unat N])
        else None)
   \<and> (unat N \<le> max_size \<longrightarrow>
        (\<exists>s1 s2. body FromRange N s = Inr s1 \<and> body FromRangeIterators N s = Inr s2
           \<and> element_events (new_events s s1) = element_events (new_events s s2)
           \<and> element_events (new_events s s1) =
               concat (map (\<lambda>i. [(None, MyStruct (static_cast_int (of_nat i)) (static_cast_int (of_nat i))),
                                  (Some i, MyStruct (static_cast_int (of_nat i)) (static_cast_int (of_nat i)))])
                  [0..<unat N])))"
proof -
  have ev: "\<exists>s1 s2. body FromRange N s = Inr s1 \<and> body FromRangeIterators N s = Inr s2
           \<and> element_events (new_events s s1) = element_events (new_events s s2)
           \<and> element_events (new_events s s1) =
               concat (map (\<lambda>i. [(None, element i), (Some i, element i)]) [0..<unat N])"
    if "unat N \<le> max_size"
  proof -
    from that have "in_range FromRange N" "in_range FromRangeIterators N"
      by (simp_all add: in_range_def is_raw_def)
    then obtain s1 s2 where b: "body FromRange N s = Inr s1" "body FromRangeIterators N s = Inr s2"
      using body_ok by blast
    from b range_bodies_events [of FromRange N s s1] range_bodies_events [of FromRangeIterators N s s2]
    show ?thesis
      by simp
  qed
  have "produced FromRange N s =
       (if unat N \<le> max_size
        then Some (map (\<lambda>i. view_deref
                     (transform (iota 0 N) (\<lambda>j. MyStruct (static_cast_int j) (static_cast_int j)))
                     (of_nat i)) [0..<unat N])
        else None)"
    by (simp add: produced_eq in_range_def is_raw_def element_def)
  moreover have "produced FromRangeIterators N s = produced FromRange N s"
    by (simp add: produced_eq in_range_def is_raw_def)
  ultimately show ?thesis
    using ev unfolding element_def by blast
qed

theorem range_constructors_agree_witness:
  "unat (2::size_t) \<le> max_size
   \<and> (\<exists>s1 s2. body FromRange 2 empty_mem = Inr s1 \<and> body FromRangeIterators 2 empty_mem = Inr s2
        \<and> element_events (new_events empty_mem s1)
            = [(None, \<lparr>x = 0, y = 0\<rparr>), (Some 0, \<lparr>x = 0, y = 0\<rparr>),
               (None, \<lparr>x = 1, y = 1\<rparr>), (Some 1, \<lparr>x = 1, y = 1\<rparr>)]
        \<and> element_events (new_events empty_mem s2)
            = [(None, \<lparr>x = 0, y = 0\<rparr>), (Some 0, \<lparr>x = 0, y = 0\<rparr>),
               (None, \<lparr>x = 1, y = 1\<rparr>), (Some 1, \<lparr>x = 1, y = 1\<rparr>)])"
proof -
  have le: "unat (2::size_t) \<le> max_size"
    by (simp add: max_size_val)
  have two: "[0..<2] = [0, 1::nat]"
    by (simp add: upt_conv_Cons)
  from range_constructors_agree [of 2 empty_mem] le
  obtain s1 s2 where "body FromRange 2 empty_mem = Inr s1" "body FromRangeIterators 2 empty_mem = Inr s2"
    "element_events (new_events empty_mem s1) = element_events (new_events empty_mem s2)"
    "element_events (new_events empty_mem s1) =
               concat (map (\<lambda>i. [(None, MyStruct (static_cast_int (of_nat i)) (static_cast_int (of_nat i))),
                                  (Some i, MyStruct (static_cast_int (of_nat i)) (static_cast_int (of_nat i)))])
                  [0..<unat (2::size_t)])"
    by blast
  then show ?thesis
    using le by (auto simp: two MyStruct_def static_cast_int_def)
qed

subsection \<open>No items\<close>

lemma for_loop_zero: "for_loop 0 0 f t = Inr t"
  by (subst for_loop.simps) simp

lemma iter_loop_zero: "iter_loop 0 0 f t = Inr t"
  by (subst iter_loop.simps) simp

lemma vector_body_zero:
  "and_then (Inr (vector_default, s)) (\<lambda>(vec, s2). vector_dtor vec (DoNotOptimize_vec vec s2))
     = Inr (emit (Observe (Some [])) s)"
  by (simp add: vector_dtor_def deallocate_def DoNotOptimize_vec_def read_vector_def vector_default_def)

lemma body_zero:
  "body v 0 s =
     Inr (if is_raw v
          then \<lparr>blocks = blocks s @ [Freed],
                trace = trace s @ [Alloc (length (blocks s)) 0, Dealloc (length (blocks s)), Observe None]\<rparr>
          else emit (Observe (Some [])) s)"
proof (cases v)
  case EmplaceBack
  then show ?thesis
    using vector_body_zero [of s]
    by (simp add: is_raw_def BM_EmplaceBack_body_def BM_EmplaceBack_build_def reserve_def
        vector_default_def for_loop_zero)
next
  case PushBack
  then show ?thesis
    using vector_body_zero [of s]
    by (simp add: is_raw_def BM_PushBack_body_def BM_PushBack_build_def reserve_def
        vector_default_def for_loop_zero)
next
  case FromRange
  then show ?thesis
    using vector_body_zero [of s]
    by (simp add: is_raw_def BM_FromRange_body_def BM_FromRange_build_def vector_from_range_def
        allocate_def vector_default_def iter_loop_zero)
next
  case FromRangeIterators
  then show ?thesis
    using vector_body_zero [of s]
    by (simp add: is_raw_def BM_FromRangeIterators_body_def BM_FromRangeIterators_build_def
        vector_from_iterators_def iter_loop_zero)
qed (simp_all add: is_raw_def BM_CBaseline_body_eq BM_CBaseline2_body_eq BM_CBaseline3_body_eq)

text \<open>
  Claim C6. With \<open>N = 0\<close> every variant's loop body returns normally and the
  collection it produces is empty. A vector variant does nothing but the opaque use of
  its empty vector; a raw-buffer variant requests a block of zero bytes, which has no
  slot, releases it and then makes its opaque use. No object is made and no element
  slot is allocated.
\<close>

theorem zero_items:
  "\<exists>s'. body v 0 s = Inr s'
     \<and> produced v 0 s = Some []
     \<and> new_events s s' =
          (if is_raw v
           then [Alloc (length (blocks s)) 0, Dealloc (length (blocks s)), Observe None]
           else [Observe (Some [])])
     \<and> objects_made (new_events s s') = 0
     \<and> slots_allocated (new_events s s') = 0"
proof -
  have "in_range v 0"
    by (simp add: in_range_def)
  then have "produced v 0 s = Some []"
    by (simp add: produced_eq)
  then show ?thesis
    by (simp add: body_zero new_events_def emit_def objects_made_def slots_allocated_def)
qed

subsection \<open>The opaque use\<close>

text \<open>
  Claim C7, read on the code. In every variant the loop body goes on after the
  construction work, which leaves a collection of \<open>N\<close> elements, with one opaque use of
  \<open>vec\<close>. A vector variant makes it first, on the live vector, and the use observes the
  produced collection; the vector's storage is released afterwards. A raw-buffer variant
  ends with \<^verbatim>\<open>delete[] vec; benchmark::DoNotOptimize(vec);\<close> in this order: the
  block is released first, and the opaque use is handed a pointer to a block that is no
  longer live, so it observes no collection.
\<close>

theorem opaque_use_after_construction:
  assumes "in_range v N"
  shows "\<exists>h t s'. build v N s = Inr (h, t) \<and> body v N s = Inr s'
       \<and> (\<exists>c. denotes h t = Some c \<and> length c = unat N)
       \<and> new_events t s' =
           (case h of
              Ptr p \<Rightarrow> [Dealloc p, Observe None]
            | Vec w \<Rightarrow> Observe (denotes h t) # (case data w of None \<Rightarrow> [] | Some p \<Rightarrow> [Dealloc p]))
       \<and> (is_raw v \<longleftrightarrow> (\<exists>p. h = Ptr p))"
proof (cases "is_raw v")
  case True
  with assms have r: "unat N < 2 ^ 61"
    by (simp add: in_range_def)
  from body_raw [OF True r, of s] obtain t s' evs where
    b: "build v N s = Inr (Ptr (length (blocks s)), t)"
       "blocks t = blocks s @ [Live (map (\<lambda>i. Some (element i)) [0..<unat N])]"
       "trace t = trace s @ Alloc (length (blocks s)) (8 * unat N) # evs"
       "body v N s = Inr s'"
       "trace s' = trace s @ Alloc (length (blocks s)) (8 * unat N) # evs
                       @ [Dealloc (length (blocks s)), Observe None]"
    by blast
  from b(3,5) have "new_events t s' = [Dealloc (length (blocks s)), Observe None]"
    by (simp add: new_events_def)
  moreover from b(2) have "denotes (Ptr (length (blocks s))) t = Some (map element [0..<unat N])"
    by (simp add: read_block_def those_map_Some)
  ultimately show ?thesis
    using True b(1,4) by simp
next
  case False
  with assms have r: "unat N \<le> max_size"
    by (simp add: in_range_def)
  from body_vec [OF False r, of s] obtain w t s' where
    b: "build v N s = Inr (Vec w, t)"
       "vec_ok (length (blocks s)) (map element [0..<unat N]) (w, t)"
       "body v N s = Inr s'"
       "trace s' = trace t @ Observe (Some (map element [0..<unat N]))
                      # (case data w of None \<Rightarrow> [] | Some p \<Rightarrow> [Dealloc p])"
    by blast
  from b(4) have "new_events t s' = Observe (Some (map element [0..<unat N]))
                      # (case data w of None \<Rightarrow> [] | Some p \<Rightarrow> [Dealloc p])"
    by (simp add: new_events_def)
  moreover from b(2) have "denotes (Vec w) t = Some (map element [0..<unat N])"
    by (simp add: read_vector_ok)
  ultimately show ?thesis
    using False b(1,3) by simp
qed

theorem opaque_use_after_construction_witness:
  "in_range CBaseline 1
   \<and> build CBaseline 1 empty_mem
       = Inr (Ptr 0, \<lparr>blocks = [Live [Some \<lparr>x = 0, y = 0\<rparr>]],
                      trace = [Alloc 0 8, Construct 0 0 \<lparr>x = 0, y = 0\<rparr>]\<rparr>)
   \<and> body CBaseline 1 empty_mem
       = Inr \<lparr>blocks = [Freed],
              trace = [Alloc 0 8, Construct 0 0 \<lparr>x = 0, y = 0\<rparr>, Dealloc 0, Observe None]\<rparr>
   \<and> denotes (Ptr 0) \<lparr>blocks = [Live [Some \<lparr>x = 0, y = 0\<rparr>]],
                      trace = [Alloc 0 8, Construct 0 0 \<lparr>x = 0, y = 0\<rparr>]\<rparr>
       = Some [\<lparr>x = 0, y = 0\<rparr>]
   \<and> new_events \<lparr>blocks = [Live [Some \<lparr>x = 0, y = 0\<rparr>]],
                   trace = [Alloc 0 8, Construct 0 0 \<lparr>x = 0, y = 0\<rparr>]\<rparr>
        \<lparr>blocks = [Freed],
         trace = [Alloc 0 8, Construct 0 0 \<lparr>x = 0, y = 0\<rparr>, Dealloc 0, Observe None]\<rparr>
       = [Dealloc 0, Observe None]"
proof -
  have 1: "in_range CBaseline 1"
    by (simp add: in_range_def is_raw_def)
  have e: "element 0 = \<lparr>x = 0, y = 0\<rparr>"
    by (simp add: element_def MyStruct_def static_cast_int_def)
  from opaque_use_after_construction [OF 1, of empty_mem] 1 show ?thesis
    by (simp add: as_ptr_def BM_CBaseline_build_eq BM_CBaseline_body_eq empty_mem_def e
        read_block_def new_events_def)
qed

subsection \<open>Registration and the item count\<close>

lemma repeat_ok:
  assumes "in_range v N"
  shows "\<exists>s'. repeat k (body v N) s = Inr s'"
proof -
  have "\<exists>s'. repeat k (body v N) s = Inr s' \<and> True"
    by (rule repeat_invariant [where I = "\<lambda>t. True"]) (simp_all add: body_ok [OF assms])
  then show ?thesis by simp
qed

lemma body_partial:
  "body CBaseline N = BM_CBaseline_body N"
  "body EmplaceBack N = BM_EmplaceBack_body N"
  "body PushBack N = BM_PushBack_body N"
  "body FromRange N = BM_FromRange_body N"
  "body FromRangeIterators N = BM_FromRangeIterators_body N"
  "body CBaseline2 N = BM_CBaseline2_body N"
  "body CBaseline3 N = BM_CBaseline3_body N"
  by (simp_all add: fun_eq_iff)

lemma benchmark_function_eq:
  "benchmark_function v st s =
     and_then (state_range st 0) (\<lambda>N.
     and_then (timed_loop st (body v N) s) (\<lambda>s'.
     Inr (SetItemsProcessed (state_iterations st * N) st, s')))"
  by (cases v)
    (simp_all add: BM_CBaseline_def BM_EmplaceBack_def BM_PushBack_def BM_FromRange_def
      BM_FromRangeIterators_def BM_CBaseline2_def BM_CBaseline3_def body_partial)

lemma benchmark_function_ok:
  assumes "in_range v (word_of_int n)"
  shows "\<exists>s'. benchmark_function v \<lparr>range_args = [n], max_iterations = k, items_processed = None\<rparr> s
     = Inr (\<lparr>range_args = [n], max_iterations = k, items_processed = Some (k * word_of_int n)\<rparr>, s')"
proof -
  from repeat_ok [OF assms, of "unat k" s] obtain s' where
    "repeat (unat k) (body v (word_of_int n)) s = Inr s'"
    by auto
  then show ?thesis
    by (simp add: benchmark_function_eq state_range_def timed_loop_def SetItemsProcessed_def
        state_iterations_def)
qed

lemma in_range_registered: "in_range v (word_of_int 500000)"
  by (simp add: in_range_def max_size_val)

lemma sint_product:
  assumes "unat (k::size_t) * 500000 < 2 ^ 63"
  shows "sint (k * 500000) = int (unat k * 500000)"
proof -
  have "k * 500000 = (of_nat (unat k * 500000) :: size_t)"
    by simp
  moreover have "signed_take_bit 63 (int (unat k * 500000)) = int (unat k * 500000)"
  proof (rule signed_take_bit_int_eq_self)
    show "- (2 ^ 63) \<le> int (unat k * 500000)"
      by (rule order_trans [of _ 0]) simp_all
    from assms have "int (unat k * 500000) < int (2 ^ 63)"
      by (simp only: of_nat_less_iff)
    then show "int (unat k * 500000) < 2 ^ 63" by simp
  qed
  ultimately show ?thesis
    by (simp only: signed_of_nat) simp
qed

text \<open>
  Claim C8. Seven benchmarks are registered, under seven different names and for the
  seven variants, each with the one argument 500000 and 20 repetitions. Run on its
  argument with the loop executing \<open>k\<close> times, each registered benchmark returns and
  reports \<open>k * 500000\<close> items processed, the product taken in \<open>size_t\<close> (the number
  itself whenever that is below \<open>2 ^ 63\<close>); and so does every variant's function for
  any argument in its range: iterations times \<open>N\<close>.
\<close>

theorem registrations_and_items_processed:
  "map bm_name registered =
     [''BM_FromRange'', ''BM_FromRangeIterators'', ''BM_EmplaceBack'', ''BM_PushBack'',
      ''BM_CBaseline'', ''BM_CBaseline2'', ''BM_CBaseline3'']
   \<and> map bm_variant registered =
     [FromRange, FromRangeIterators, EmplaceBack, PushBack, CBaseline, CBaseline2, CBaseline3]
   \<and> length registered = 7
   \<and> distinct (map bm_name registered)
   \<and> distinct (map bm_variant registered)
   \<and> (\<forall>r\<in>set registered. bm_args r = [[500000]] \<and> bm_repetitions r = 20)
   \<and> (\<forall>r\<in>set registered. \<forall>a\<in>set (bm_args r). \<exists>s'. run_registered r a k s =
          Inr (\<lparr>range_args = a, max_iterations = k, items_processed = Some (k * 500000)\<rparr>, s'))
   \<and> (unat k * 500000 < 2 ^ 63 \<longrightarrow> sint (k * 500000) = int (unat k * 500000))
   \<and> (in_range v (word_of_int n) \<longrightarrow>
        (\<exists>s'. benchmark_function v \<lparr>range_args = [n], max_iterations = k, items_processed = None\<rparr> s
           = Inr (\<lparr>range_args = [n], max_iterations = k,
                   items_processed = Some (k * word_of_int n)\<rparr>, s')))"
proof -
  have run: "\<exists>s'. run_registered r [500000] k s =
          Inr (\<lparr>range_args = [500000], max_iterations = k, items_processed = Some (k * 500000)\<rparr>, s')"
    for r
    using benchmark_function_ok [OF in_range_registered, of "bm_variant r" k s]
    by (simp add: run_registered_def)
  have args: "\<forall>r\<in>set registered. bm_args r = [[500000]] \<and> bm_repetitions r = 20"
    by (simp add: registered_def BENCHMARK_def Arg_def Repetitions_def)
  have "\<forall>r\<in>set registered. \<forall>a\<in>set (bm_args r). \<exists>s'. run_registered r a k s =
          Inr (\<lparr>range_args = a, max_iterations = k, items_processed = Some (k * 500000)\<rparr>, s')"
  proof (intro ballI)
    fix r a assume "r \<in> set registered" "a \<in> set (bm_args r)"
    with args have "a = [500000]" by auto
    with run [of r] show "\<exists>s'. run_registered r a k s =
          Inr (\<lparr>range_args = a, max_iterations = k, items_processed = Some (k * 500000)\<rparr>, s')"
      by simp
  qed
  moreover have "map bm_name registered =
     [''BM_FromRange'', ''BM_FromRangeIterators'', ''BM_EmplaceBack'', ''BM_PushBack'',
      ''BM_CBaseline'', ''BM_CBaseline2'', ''BM_CBaseline3'']"
    by (simp add: registered_def BENCHMARK_def Arg_def Repetitions_def)
  moreover have "map bm_variant registered =
     [FromRange, FromRangeIterators, EmplaceBack, PushBack, CBaseline, CBaseline2, CBaseline3]"
    by (simp add: registered_def BENCHMARK_def Arg_def Repetitions_def)
  moreover have "length registered = 7"
    by (simp add: registered_def)
  ultimately show ?thesis
    using args sint_product [of k] benchmark_function_ok [of v n k s]
    by simp
qed

theorem registrations_and_items_processed_witness:
  "(\<exists>s'. run_registered (registered ! 4) [500000] 1000 empty_mem =
          Inr (\<lparr>range_args = [500000], max_iterations = 1000,
                 items_processed = Some 500000000\<rparr>, s'))
   \<and> sint (1000 * 500000 :: size_t) = 500000000
   \<and> bm_name (registered ! 4) = ''BM_CBaseline''
   \<and> bm_args (registered ! 4) = [[500000]]
   \<and> bm_repetitions (registered ! 4) = 20"
proof -
  have r: "registered ! 4 \<in> set registered"
    by (simp add: registered_def)
  have a: "bm_args (registered ! 4) = [[500000]]" "bm_repetitions (registered ! 4) = 20"
      "bm_name (registered ! 4) = ''BM_CBaseline''"
    by (simp_all add: registered_def BENCHMARK_def Arg_def Repetitions_def)
  from registrations_and_items_processed [of 1000 empty_mem CBaseline 500000]
  have "\<forall>r\<in>set registered. \<forall>a\<in>set (bm_args r). \<exists>s'. run_registered r a 1000 empty_mem =
          Inr (\<lparr>range_args = a, max_iterations = 1000, items_processed = Some (1000 * 500000)\<rparr>, s')"
    by blast
  with r a show ?thesis
    by simp
qed

subsection \<open>Running a variant twice\<close>

lemma for_loop_done: "for_loop N N f t = Inr t"
  by (subst for_loop.simps) simp

lemma build_fails: "\<not> in_range v N \<Longrightarrow> \<exists>e. build v N s = Inl e"
  by (cases v)
    (simp_all add: in_range_def is_raw_def as_ptr_def as_vec_def BM_CBaseline_build_eq
      BM_CBaseline2_build_eq BM_CBaseline3_build_eq BM_EmplaceBack_build_fails
      BM_PushBack_build_fails BM_FromRange_build_fails BM_FromRangeIterators_build_fails)

lemma build_in_range: "build v N s = Inr (h, t) \<Longrightarrow> in_range v N"
  using build_fails [of v N s] by auto

lemma denotes_build: "build v N s = Inr (h, t) \<Longrightarrow> denotes h t = produced v N s"
  by (simp add: produced_def)

lemma run_twice_instances:
  assumes b1: "build v N s = Inr (h1, t1)" and run: "body v N s = Inr s'"
    and b2: "build v N s' = Inr (h2, t2)" and pos: "is_raw v \<or> 0 < unat N"
  shows "h1 \<noteq> h2"
proof (cases "is_raw v")
  case True
  from build_in_range [OF b1] True have r: "unat N < 2 ^ 61"
    by (simp add: in_range_def)
  from body_raw [OF True r, of s] b1 run
  have "h1 = Ptr (length (blocks s))" "blocks s' = blocks s @ [Freed]"
    by auto
  moreover from body_raw [OF True r, of s'] b2 have "h2 = Ptr (length (blocks s'))"
    by auto
  ultimately show ?thesis by simp
next
  case False
  with pos have n: "0 < unat N" by simp
  from build_in_range [OF b1] False have r: "unat N \<le> max_size"
    by (simp add: in_range_def)
  from body_vec [OF False r, of s] b1 run obtain w1 where
    1: "h1 = Vec w1" "vec_ok (length (blocks s)) (map element [0..<unat N]) (w1, t1)"
       "length (blocks s') = length (blocks t1)"
    by auto
  from body_vec [OF False r, of s'] b2 obtain w2 where
    2: "h2 = Vec w2" "vec_ok (length (blocks s')) (map element [0..<unat N]) (w2, t2)"
    by auto
  from 1(2) n obtain p1 where p1: "data w1 = Some p1" "p1 < length (blocks t1)"
    by (cases "data w1") (auto simp: vec_ok_def)
  from 2(2) n obtain p2 where p2: "data w2 = Some p2" "length (blocks s') \<le> p2"
    by (cases "data w2") (auto simp: vec_ok_def)
  from p1 p2 1(3) have "data w1 \<noteq> data w2" by simp
  with 1(1) 2(1) show ?thesis by auto
qed

text \<open>
  Claim C9. What a variant produces depends on \<open>N\<close> alone: from any two states the
  produced collections are equal. In particular, when an iteration is run and then its
  construction work is run again from the state the iteration left, the two
  collections have equal elements; yet they are two instances, in different blocks
  (for a vector variant when \<open>N\<close> is not 0: an empty vector has no block).
\<close>

theorem same_count_same_collection:
  "produced v N s1 = produced v N s2
   \<and> (build v N s = Inr (h1, t1) \<longrightarrow> body v N s = Inr s' \<longrightarrow> build v N s' = Inr (h2, t2) \<longrightarrow>
        denotes h1 t1 = denotes h2 t2 \<and> (is_raw v \<or> 0 < unat N \<longrightarrow> h1 \<noteq> h2))"
proof -
  have "produced v N s1 = produced v N s2"
    by (simp add: produced_eq)
  moreover have "denotes h1 t1 = denotes h2 t2"
    if "build v N s = Inr (h1, t1)" "build v N s' = Inr (h2, t2)"
    using that by (simp add: denotes_build produced_eq)
  ultimately show ?thesis
    using run_twice_instances [of v N s h1 t1 s' h2 t2] by blast
qed

theorem same_count_same_collection_witness:
  "build PushBack 1 empty_mem
     = Inr (Vec \<lparr>data = Some 0, vsize = 1, capacity = 1\<rparr>,
            \<lparr>blocks = [Live [Some \<lparr>x = 0, y = 0\<rparr>]],
             trace = [Alloc 0 8, Materialize \<lparr>x = 0, y = 0\<rparr>, CopyConstruct 0 0 \<lparr>x = 0, y = 0\<rparr>]\<rparr>)
   \<and> body PushBack 1 empty_mem
     = Inr \<lparr>blocks = [Freed],
            trace = [Alloc 0 8, Materialize \<lparr>x = 0, y = 0\<rparr>, CopyConstruct 0 0 \<lparr>x = 0, y = 0\<rparr>,
                     Observe (Some [\<lparr>x = 0, y = 0\<rparr>]), Dealloc 0]\<rparr>
   \<and> build PushBack 1
        \<lparr>blocks = [Freed],
         trace = [Alloc 0 8, Materialize \<lparr>x = 0, y = 0\<rparr>, CopyConstruct 0 0 \<lparr>x = 0, y = 0\<rparr>,
                  Observe (Some [\<lparr>x = 0, y = 0\<rparr>]), Dealloc 0]\<rparr>
     = Inr (Vec \<lparr>data = Some 1, vsize = 1, capacity = 1\<rparr>,
            \<lparr>blocks = [Freed, Live [Some \<lparr>x = 0, y = 0\<rparr>]],
             trace = [Alloc 0 8, Materialize \<lparr>x = 0, y = 0\<rparr>, CopyConstruct 0 0 \<lparr>x = 0, y = 0\<rparr>,
                      Observe (Some [\<lparr>x = 0, y = 0\<rparr>]), Dealloc 0,
                      Alloc 1 8, Materialize \<lparr>x = 0, y = 0\<rparr>, CopyConstruct 1 0 \<lparr>x = 0, y = 0\<rparr>]\<rparr>)
   \<and> denotes (Vec \<lparr>data = Some 0, vsize = 1, capacity = 1\<rparr>)
        \<lparr>blocks = [Live [Some \<lparr>x = 0, y = 0\<rparr>]],
         trace = [Alloc 0 8, Materialize \<lparr>x = 0, y = 0\<rparr>, CopyConstruct 0 0 \<lparr>x = 0, y = 0\<rparr>]\<rparr>
     = denotes (Vec \<lparr>data = Some 1, vsize = 1, capacity = 1\<rparr>)
        \<lparr>blocks = [Freed, Live [Some \<lparr>x = 0, y = 0\<rparr>]],
         trace = [Alloc 0 8, Materialize \<lparr>x = 0, y = 0\<rparr>, CopyConstruct 0 0 \<lparr>x = 0, y = 0\<rparr>,
                  Observe (Some [\<lparr>x = 0, y = 0\<rparr>]), Dealloc 0,
                  Alloc 1 8, Materialize \<lparr>x = 0, y = 0\<rparr>, CopyConstruct 1 0 \<lparr>x = 0, y = 0\<rparr>]\<rparr>
   \<and> Vec \<lparr>data = Some 0, vsize = 1, capacity = 1\<rparr> \<noteq> Vec \<lparr>data = Some 1, vsize = 1, capacity = 1\<rparr>"
proof -
  let ?e = "\<lparr>x = 0, y = 0 :: c_int\<rparr>"
  let ?v1 = "\<lparr>data = Some 0, vsize = 1, capacity = 1\<rparr>"
  let ?t1 = "\<lparr>blocks = [Live [Some ?e]],
             trace = [Alloc 0 8, Materialize ?e, CopyConstruct 0 0 ?e]\<rparr>"
  let ?s' = "\<lparr>blocks = [Freed],
            trace = [Alloc 0 8, Materialize ?e, CopyConstruct 0 0 ?e,
                     Observe (Some [?e]), Dealloc 0]\<rparr>"
  let ?v2 = "\<lparr>data = Some 1, vsize = 1, capacity = 1\<rparr>"
  let ?t2 = "\<lparr>blocks = [Freed, Live [Some ?e]],
             trace = [Alloc 0 8, Materialize ?e, CopyConstruct 0 0 ?e,
                      Observe (Some [?e]), Dealloc 0,
                      Alloc 1 8, Materialize ?e, CopyConstruct 1 0 ?e]\<rparr>"
  have one: "for_loop 0 1 f t = (case f 0 t of Inl e \<Rightarrow> Inl e | Inr t' \<Rightarrow> Inr t')" for f :: "size_t \<Rightarrow> vector \<times> mem \<Rightarrow> error + vector \<times> mem" and t
    by (subst for_loop.simps) (simp add: for_loop_done split: sum.splits)
  have sz: "unat sizeof_MyStruct = 8" "sizeof_MyStruct = 8"
    by (simp_all add: sizeof_MyStruct_def)
  have bb1: "BM_PushBack_build 1 empty_mem = Inr (?v1, ?t1)"
    by (simp add: BM_PushBack_build_def reserve_def vector_default_def max_size_val
        reallocate_def allocate_def new_bytes_def relocate_def deallocate_def emit_def one
        push_back_def make_room_def copy_end_def copy_construct_def store_def materialize_def
        empty_mem_def sz MyStruct_def static_cast_int_def Let_def)
  have b1: "build PushBack 1 empty_mem = Inr (Vec ?v1, ?t1)"
    by (simp add: as_vec_def bb1)
  have run: "body PushBack 1 empty_mem = Inr ?s'"
    by (simp add: BM_PushBack_body_def bb1 vector_dtor_def deallocate_def
        release_def DoNotOptimize_vec_def read_vector_def read_array_def emit_def)
  have bb2: "BM_PushBack_build 1 ?s' = Inr (?v2, ?t2)"
    by (simp add: BM_PushBack_build_def reserve_def vector_default_def max_size_val
        reallocate_def allocate_def new_bytes_def relocate_def deallocate_def emit_def one
        push_back_def make_room_def copy_end_def copy_construct_def store_def materialize_def
        sz MyStruct_def static_cast_int_def Let_def)
  have b2: "build PushBack 1 ?s' = Inr (Vec ?v2, ?t2)"
    by (simp add: as_vec_def bb2)
  from same_count_same_collection [of PushBack 1 empty_mem empty_mem empty_mem "Vec ?v1" ?t1 ?s' "Vec ?v2" ?t2]
    b1 run b2
  show ?thesis
    by (simp add: is_raw_def)
qed

subsection \<open>The fields and the index\<close>

text \<open>
  Claim C10. Every variant, for every count it can handle, produces a collection of
  \<open>N\<close> elements in which the element at index \<open>i\<close> is constructed from the \<open>size_t\<close>
  index converted to \<open>int\<close>, for both parameters. For an index below \<open>2 ^ 31\<close> the
  conversion keeps the value, and both fields equal \<open>i\<close>; for an index from \<open>2 ^ 31\<close>
  on it does not, and neither field equals \<open>i\<close>. Every registered count is 500000
  at most, hence below \<open>2 ^ 31\<close>, and a count its variant can handle.
\<close>

theorem index_narrowing:
  assumes "in_range v N"
  shows "(\<exists>c. produced v N s = Some c \<and> length c = unat N
            \<and> (\<forall>i<unat N.
                  c ! i = MyStruct (static_cast_int (of_nat i)) (static_cast_int (of_nat i))
                  \<and> (i < 2 ^ 31 \<longrightarrow> sint (x (c ! i)) = int i \<and> sint (y (c ! i)) = int i)
                  \<and> (2 ^ 31 \<le> i \<longrightarrow> sint (x (c ! i)) \<noteq> int i \<and> sint (y (c ! i)) \<noteq> int i)))
       \<and> (\<forall>r\<in>set registered. \<forall>a\<in>set (bm_args r). \<forall>n\<in>set a.
             0 \<le> n \<and> n \<le> 500000 \<and> n < 2 ^ 31 \<and> in_range (bm_variant r) (word_of_int n))"
proof -
  from assms have p: "produced v N s = Some (map element [0..<unat N])"
    by (simp add: produced_eq)
  have el: "map element [0..<unat N] ! i
               = MyStruct (static_cast_int (of_nat i)) (static_cast_int (of_nat i))
          \<and> (i < 2 ^ 31 \<longrightarrow> sint (x (map element [0..<unat N] ! i)) = int i
                         \<and> sint (y (map element [0..<unat N] ! i)) = int i)
          \<and> (2 ^ 31 \<le> i \<longrightarrow> sint (x (map element [0..<unat N] ! i)) \<noteq> int i
                         \<and> sint (y (map element [0..<unat N] ! i)) \<noteq> int i)"
    if "i < unat N" for i
    using that by (simp add: x_element y_element narrow_small narrow_large) (simp add: element_def)
  have reg: "\<forall>r\<in>set registered. \<forall>a\<in>set (bm_args r). \<forall>n\<in>set a.
             0 \<le> n \<and> n \<le> 500000 \<and> n < 2 ^ 31 \<and> in_range (bm_variant r) (word_of_int n)"
    by (simp add: registered_def BENCHMARK_def Arg_def Repetitions_def in_range_def is_raw_def
        max_size_val)
  have all: "\<forall>i<unat N.
       map element [0..<unat N] ! i = MyStruct (static_cast_int (of_nat i)) (static_cast_int (of_nat i))
       \<and> (i < 2 ^ 31 \<longrightarrow> sint (x (map element [0..<unat N] ! i)) = int i
                         \<and> sint (y (map element [0..<unat N] ! i)) = int i)
       \<and> (2 ^ 31 \<le> i \<longrightarrow> sint (x (map element [0..<unat N] ! i)) \<noteq> int i
                         \<and> sint (y (map element [0..<unat N] ! i)) \<noteq> int i)"
    using el by blast
  have len: "length (map element [0..<unat N]) = unat N"
    by simp
  from p len all have "produced v N s = Some (map element [0..<unat N])
       \<and> length (map element [0..<unat N]) = unat N
       \<and> (\<forall>i<unat N.
             map element [0..<unat N] ! i = MyStruct (static_cast_int (of_nat i)) (static_cast_int (of_nat i))
             \<and> (i < 2 ^ 31 \<longrightarrow> sint (x (map element [0..<unat N] ! i)) = int i
                               \<and> sint (y (map element [0..<unat N] ! i)) = int i)
             \<and> (2 ^ 31 \<le> i \<longrightarrow> sint (x (map element [0..<unat N] ! i)) \<noteq> int i
                               \<and> sint (y (map element [0..<unat N] ! i)) \<noteq> int i))"
    by (intro conjI)
  then have "\<exists>c. produced v N s = Some c \<and> length c = unat N
            \<and> (\<forall>i<unat N.
                  c ! i = MyStruct (static_cast_int (of_nat i)) (static_cast_int (of_nat i))
                  \<and> (i < 2 ^ 31 \<longrightarrow> sint (x (c ! i)) = int i \<and> sint (y (c ! i)) = int i)
                  \<and> (2 ^ 31 \<le> i \<longrightarrow> sint (x (c ! i)) \<noteq> int i \<and> sint (y (c ! i)) \<noteq> int i))"
    by (rule exI)
  with reg show ?thesis by (rule conjI [rotated])
qed

theorem index_narrowing_witness:
  "in_range EmplaceBack 5
   \<and> (\<exists>c. produced EmplaceBack 5 empty_mem = Some c \<and> length c = unat (5::size_t)
          \<and> (\<forall>i<unat (5::size_t).
                c ! i = MyStruct (static_cast_int (of_nat i)) (static_cast_int (of_nat i))
                \<and> (i < 2 ^ 31 \<longrightarrow> sint (x (c ! i)) = int i \<and> sint (y (c ! i)) = int i)
                \<and> (2 ^ 31 \<le> i \<longrightarrow> sint (x (c ! i)) \<noteq> int i \<and> sint (y (c ! i)) \<noteq> int i)))
   \<and> produced EmplaceBack 5 empty_mem
       = Some [\<lparr>x = 0, y = 0\<rparr>, \<lparr>x = 1, y = 1\<rparr>, \<lparr>x = 2, y = 2\<rparr>, \<lparr>x = 3, y = 3\<rparr>, \<lparr>x = 4, y = 4\<rparr>]"
proof -
  have r: "in_range EmplaceBack 5"
    by (simp add: in_range_def is_raw_def max_size_val)
  then have p: "produced EmplaceBack 5 empty_mem
       = Some [\<lparr>x = 0, y = 0\<rparr>, \<lparr>x = 1, y = 1\<rparr>, \<lparr>x = 2, y = 2\<rparr>, \<lparr>x = 3, y = 3\<rparr>, \<lparr>x = 4, y = 4\<rparr>]"
    by (simp add: produced_eq elements5)
  from index_narrowing [OF r, of empty_mem] r p show ?thesis
    by (simp only: simp_thms)
qed

end
